theory Spec2Isabelle
  imports Main "HOL-Library.AList" "HOL-Library.Word"
begin

section \<open>JavaScript values\<close>

text \<open>
  The values the port handles. A function value is a reference: \<open>AppFn n name\<close> is the
  \<open>n\<close>-th function of the application (with its \<open>.name\<close>), \<open>Stub n cbId\<close> is the
  \<open>n\<close>-th closure that \<open>unmapValue\<close> created on this port, together with the \<open>cbId\<close> it
  captured. Numbers are the integers (and \<open>NaN\<close>, which arithmetic on a non-number gives).
  \<open>Obj c props\<close> is an object whose \<open>value.constructor && value.constructor.name\<close> reads
  \<open>c\<close> (\<open>None\<close> when the constructor is falsy) and whose readable properties are \<open>props\<close>, in
  order. \<open>Prom n\<close> is a promise object, the \<open>n\<close>-th of the application: the values for which
  \<open>isPromise\<close> answers true.
\<close>

datatype func = AppFn nat string | Stub nat jsval
and jsval =
    Undefined | Null | Bool bool | Num int | NaN | Str string
  | Arr "jsval list"
  | Obj "string option" "(string \<times> jsval) list"
  | Fun func
  | Prom nat

datatype jstype = TUndefined | TObject | TBoolean | TNumber | TString | TFunction

fun typeof :: "jsval \<Rightarrow> jstype" where
  "typeof Undefined = TUndefined"
| "typeof Null = TObject"
| "typeof (Bool b) = TBoolean"
| "typeof (Num n) = TNumber"
| "typeof NaN = TNumber"
| "typeof (Str s) = TString"
| "typeof (Arr xs) = TObject"
| "typeof (Obj c props) = TObject"
| "typeof (Fun f) = TFunction"
| "typeof (Prom n) = TObject"

fun truthy :: "jsval \<Rightarrow> bool" where
  "truthy Undefined = False"
| "truthy Null = False"
| "truthy (Bool b) = b"
| "truthy (Num n) = (n \<noteq> 0)"
| "truthy NaN = False"
| "truthy (Str s) = (s \<noteq> [])"
| "truthy v = True"

text \<open>\<open>'' in value\<close> and \<open>Object.getOwnPropertyDescriptor(value, k)\<close>: only objects built
  from a property list carry named properties here.\<close>

fun hasOwn :: "jsval \<Rightarrow> string \<Rightarrow> bool" where
  "hasOwn (Obj c props) k = (map_of props k \<noteq> None)"
| "hasOwn v k = False"

text \<open>A property read \<open>value.k\<close> on an object; a missing property reads \<open>undefined\<close>.\<close>

fun getProp :: "jsval \<Rightarrow> string \<Rightarrow> jsval" where
  "getProp (Obj c props) k = (case map_of props k of Some v \<Rightarrow> v | None \<Rightarrow> Undefined)"
| "getProp v k = Undefined"

fun isPromise :: "jsval \<Rightarrow> bool" where
  "isPromise (Prom n) = True"
| "isPromise v = False"

subsection \<open>Conversions\<close>

definition digitChar :: "nat \<Rightarrow> char" where
  "digitChar d = ''0123456789abcdefghijklmnopqrstuv'' ! d"

text \<open>\<open>Number.prototype.toString(radix)\<close> on a natural number, for radix 10 and 32.\<close>

fun toStringRadix :: "nat \<Rightarrow> nat \<Rightarrow> string" where
  "toStringRadix r n =
     (if r < 2 \<or> n < r then [digitChar n]
      else toStringRadix r (n div r) @ [digitChar (n mod r)])"

declare toStringRadix.simps [simp del]

definition showInt :: "int \<Rightarrow> string" where
  "showInt i = (if i < 0 then CHR ''-'' # toStringRadix 10 (nat (- i)) else toStringRadix 10 (nat i))"

fun joinWith :: "string \<Rightarrow> string list \<Rightarrow> string" where
  "joinWith sep [] = []"
| "joinWith sep [x] = x"
| "joinWith sep (x # y # ys) = x @ sep @ joinWith sep (y # ys)"

text \<open>String coercion (\<open>value + ''\<close>, a template literal). An array joins its elements
  with commas, \<open>null\<close> and \<open>undefined\<close> elements as the empty string; an object or a function
  with a \<open>toString\<close> of its own is outside this model.\<close>

fun toStr :: "jsval \<Rightarrow> string" where
  "toStr Undefined = ''undefined''"
| "toStr Null = ''null''"
| "toStr (Bool b) = (if b then ''true'' else ''false'')"
| "toStr (Num n) = showInt n"
| "toStr NaN = ''NaN''"
| "toStr (Str s) = s"
| "toStr (Arr xs) =
     joinWith '','' (map (\<lambda>x. if x = Null \<or> x = Undefined then [] else toStr x) xs)"
| "toStr (Obj c props) = ''[object Object]''"
| "toStr (Fun f) = ''function () { [native code] }''"
| "toStr (Prom n) = ''[object Promise]''"

definition digitVal :: "char \<Rightarrow> nat option" where
  "digitVal c = (if c \<in> set ''0123456789'' then Some (of_char c - 48) else None)"

fun parseDigits :: "nat \<Rightarrow> string \<Rightarrow> nat option" where
  "parseDigits acc [] = Some acc"
| "parseDigits acc (c # cs) =
     (case digitVal c of None \<Rightarrow> None | Some d \<Rightarrow> parseDigits (10 * acc + d) cs)"

text \<open>A string read as a number: the empty string is 0, a decimal integer with an optional
  sign is that integer, anything else is \<open>NaN\<close> (fractions, exponents, hexadecimal and
  surrounding white space are outside the integer model).\<close>

definition stringToNumber :: "string \<Rightarrow> jsval" where
  "stringToNumber s =
     (case s of
        [] \<Rightarrow> Num 0
      | c # cs \<Rightarrow>
          if (c = CHR ''-'' \<or> c = CHR ''+'') \<and> cs \<noteq> [] then
            (case parseDigits 0 cs of
               None \<Rightarrow> NaN
             | Some n \<Rightarrow> Num (if c = CHR ''-'' then - int n else int n))
          else (case parseDigits 0 s of None \<Rightarrow> NaN | Some n \<Rightarrow> Num (int n)))"

text \<open>Unary plus, \<open>+id\<close>.\<close>

fun toNumber :: "jsval \<Rightarrow> jsval" where
  "toNumber Undefined = NaN"
| "toNumber Null = Num 0"
| "toNumber (Bool b) = Num (if b then 1 else 0)"
| "toNumber (Num n) = Num n"
| "toNumber NaN = NaN"
| "toNumber (Str s) = stringToNumber s"
| "toNumber (Arr xs) = stringToNumber (toStr (Arr xs))"
| "toNumber v = NaN"

text \<open>Unary minus, \<open>-id\<close>, and the comparison \<open>id < 0\<close>.\<close>

definition negate :: "jsval \<Rightarrow> jsval" where
  "negate v = (case toNumber v of Num n \<Rightarrow> Num (- n) | _ \<Rightarrow> NaN)"

definition lessZero :: "jsval \<Rightarrow> bool" where
  "lessZero v = (case toNumber v of Num n \<Rightarrow> n < 0 | _ \<Rightarrow> False)"

text \<open>A name between double quotes, as the error messages show it.\<close>

definition quoted :: "string \<Rightarrow> string" where
  "quoted n = CHR 0x22 # n @ [CHR 0x22]"

definition endsWith :: "string \<Rightarrow> string \<Rightarrow> bool" where
  "endsWith suf s = (length suf \<le> length s \<and> drop (length s - length suf) s = suf)"

text \<open>\<open>new Error(message)\<close> and \<open>new TypeError(message)\<close>: the class name, and the
  properties a read finds (\<open>name\<close> comes from the prototype; of the stack only its first line
  is kept).\<close>

definition newError :: "string \<Rightarrow> string \<Rightarrow> jsval" where
  "newError cls msg =
     Obj (Some cls) [(''message'', Str msg), (''stack'', Str (cls @ '': '' @ msg)), (''name'', Str cls)]"

text \<open>An element read \<open>args[i]\<close>: on \<open>undefined\<close> and \<open>null\<close> it throws the TypeError
  \<open>readError\<close>, on any other value it gives \<open>elemAt\<close>.\<close>

definition nullish :: "jsval \<Rightarrow> bool" where
  "nullish v = (v = Undefined \<or> v = Null)"

definition readError :: "jsval \<Rightarrow> jsval" where
  "readError v = newError ''TypeError'' (''Cannot read properties of '' @ toStr v)"

fun elemAt :: "jsval \<Rightarrow> nat \<Rightarrow> jsval" where
  "elemAt (Arr xs) i = (if i < length xs then xs ! i else Undefined)"
| "elemAt (Str s) i = (if i < length s then Str [s ! i] else Undefined)"
| "elemAt (Obj c props) i = getProp (Obj c props) (toStringRadix 10 i)"
| "elemAt v i = Undefined"

section \<open>The port and its surroundings\<close>

text \<open>
  What the port does not own: the application's functions (\<open>appFn n flag this args\<close> is what
  the \<open>n\<close>-th function does when called while \<open>_isRequest\<close> is \<open>flag\<close>: \<open>Inl\<close> a thrown
  value, \<open>Inr\<close> a returned one), the adapter (\<open>adapterSend name id args options\<close> is what
  its \<open>send\<close> returns, \<open>adapterDestroy\<close> what its \<open>destroy\<close> throws, if anything), the
  regular expressions registered as wildcards (\<open>rxTest r name\<close> is \<open>filter.test(name)\<close> for
  the \<open>r\<close>-th of them), the random source behind \<open>crypto.getRandomValues\<close>, and the
  functions of \<open>globalThis\<close>: \<open>globalFunction n\<close> says that \<open>typeof globalThis[n]\<close> is
  \<open>'function'\<close>, and \<open>globalConstruct n props\<close> is what \<open>Object.assign(new globalThis[n], value)\<close>
  then does for a value with the properties \<open>props\<close>: \<open>Inr\<close> the object (an error class
  gives an error of that class with the properties copied on), \<open>Inl\<close> what is thrown (by
  \<open>Symbol\<close>, \<open>Promise\<close>, \<open>BigInt\<close>, \<open>Proxy\<close> and \<open>AggregateError\<close>, which cannot be
  constructed without arguments, or by \<open>Function\<close>, whose \<open>name\<close> cannot be assigned).
  Three things are taken of these surroundings: a function of the application does not call
  back into the port while it runs; the adapter does not call back into the port
  (\<open>onData\<close>, \<open>onEnd\<close>) while its \<open>send\<close> or its \<open>destroy\<close> runs; and the adapter's \<open>send\<close>
  and a \<open>reply\<close> function return without a throw.
\<close>

record env =
  appFn :: "nat \<Rightarrow> int \<Rightarrow> jsval \<Rightarrow> jsval list \<Rightarrow> jsval + jsval"
  adapterSend :: "jsval \<Rightarrow> jsval \<Rightarrow> jsval \<Rightarrow> jsval \<Rightarrow> jsval"
  adapterDestroy :: "jsval option"
  rxTest :: "nat \<Rightarrow> string \<Rightarrow> bool"
  randomUint32 :: "nat \<Rightarrow> 32 word"
  globalFunction :: "string \<Rightarrow> bool"
  globalConstruct :: "string \<Rightarrow> (string \<times> jsval) list \<Rightarrow> jsval + jsval"

datatype promiseState = Pending | Fulfilled jsval | Rejected jsval

text \<open>What \<open>value.then(...)\<close> in \<open>onData\<close> attaches to a handler's promise: only the report
  of a rejection (a post), or the two replies under an id.\<close>

datatype continuation = ReportRejection | ReplyUnder jsval bool

text \<open>
  The fields of \<open>_Port\<close>. \<open>public\<close> and \<open>port\<close> say whether the field is still non-null.
  \<open>requests\<close> and \<open>wildcards\<close> are Maps that the code iterates, so they keep their insertion
  order; a request maps to the index of its \<open>PromiseCapability\<close> in \<open>promises\<close>.
  \<open>ended\<close> is \<open>None\<close> while the promise is pending and \<open>Some reason\<close> once \<open>onEnd(reason)\<close>
  has resolved it. The last block records what the port did to the outside: the calls of the
  adapter's \<open>send\<close> and of a \<open>reply\<close> function (name, id, args, options), how often the
  adapter's \<open>destroy\<close> was invoked, the argument lists given to \<open>reportError\<close> and
  \<open>console.error\<close>, the continuations attached to promises, and how many stubs and random
  words have been made.
\<close>

record port_state =
  "public" :: bool
  port :: bool
  requests :: "(int \<times> nat) list"
  handlers :: "string \<rightharpoonup> func \<times> jsval"
  wildcards :: "(nat \<times> func \<times> jsval) list"
  lastId :: int
  cb2id :: "func \<rightharpoonup> jsval"
  id2cb :: "jsval \<rightharpoonup> func"
  endQueue :: "(jsval \<times> jsval) list"
  ended :: "jsval option"
  isRequestFlag :: int
  promises :: "promiseState list"
  sent :: "(jsval \<times> jsval \<times> jsval \<times> jsval) list"
  replied :: "(jsval \<times> jsval \<times> jsval) list"
  adapterDestroyed :: nat
  reported :: "jsval list list"
  attached :: "(nat \<times> continuation) list"
  stubsMade :: nat
  randomDrawn :: nat

text \<open>The state the constructor leaves.\<close>

definition newPort :: port_state where
  "newPort =
     \<lparr> public = True, port = True, requests = [], handlers = Map.empty, wildcards = [],
       lastId = 1, cb2id = Map.empty, id2cb = Map.empty, endQueue = [], ended = None,
       isRequestFlag = 0, promises = [], sent = [], replied = [], adapterDestroyed = 0,
       reported = [], attached = [], stubsMade = 0, randomDrawn = 0 \<rparr>"

section \<open>The value mapper\<close>

definition nextId :: "port_state \<Rightarrow> int \<times> port_state" where
  "nextId s = (lastId s + 1, s\<lparr>lastId := lastId s + 1\<rparr>)"

text \<open>\<open>getRandomId\<close>, where \<open>globalThis.crypto\<close> exists: three random 32-bit words, each
  written in base 32, joined.\<close>

definition getRandomId :: "env \<Rightarrow> port_state \<Rightarrow> string \<times> port_state" where
  "getRandomId E s =
     (concat (map (\<lambda>k. toStringRadix 32 (unat (randomUint32 E (randomDrawn s + k)))) [0, 1, 2]),
      s\<lparr>randomDrawn := randomDrawn s + 3\<rparr>)"

text \<open>\<open>this.port.send(name, id, args, options)\<close>: a TypeError once \<open>this.port\<close> is null.\<close>

definition portSend ::
  "env \<Rightarrow> port_state \<Rightarrow> jsval \<Rightarrow> jsval \<Rightarrow> jsval \<Rightarrow> jsval \<Rightarrow> (jsval + jsval) \<times> port_state" where
  "portSend E s name i args options =
     (if port s then
        (Inr (adapterSend E name i args options), s\<lparr>sent := sent s @ [(name, i, args, options)]\<rparr>)
      else (Inl (readError Null), s))"

definition errorLike :: "jsval \<Rightarrow> bool" where
  "errorLike v = (case v of Obj (Some n) props \<Rightarrow> endsWith ''Error'' n | _ \<Rightarrow> False)"

definition numberOrString :: "jsval \<Rightarrow> jsval" where
  "numberOrString v = (if typeof v = TNumber \<or> typeof v = TString then v else Undefined)"

definition onlyOfType :: "jstype \<Rightarrow> jsval \<Rightarrow> jsval" where
  "onlyOfType t v = (if typeof v = t then v else Undefined)"

definition mapValue :: "env \<Rightarrow> port_state \<Rightarrow> jsval \<Rightarrow> jsval \<times> port_state" where
  "mapValue E s v =
     (let isObject = (typeof v = TObject \<and> v \<noteq> Null) in
      if isObject \<and> hasOwn v [] then
        (Obj (Some ''Object'') [([], Num 0), (''raw'', v)], s)
      else if typeof v = TFunction then
        (case v of
           Fun callback \<Rightarrow>
             let (cbId, s1) =
                   (case cb2id s callback of
                      Some i \<Rightarrow> if truthy i then (i, s) else (let (r, s') = getRandomId E s in (Str r, s'))
                    | None \<Rightarrow> (let (r, s') = getRandomId E s in (Str r, s')))
             in (Obj (Some ''Object'') [([], Num 1), (''cb'', cbId)],
                 s1\<lparr>id2cb := (id2cb s1)(cbId \<mapsto> callback), cb2id := (cb2id s1)(callback \<mapsto> cbId)\<rparr>)
         | _ \<Rightarrow> (v, s))
      else if isObject \<and> errorLike v then
        (Obj (Some ''Object'')
           [([], Num 2),
            (''name'', Str (toStr (getProp v ''name''))),
            (''message'', Str (toStr (getProp v ''message''))),
            (''stack'', Str (toStr (getProp v ''stack''))),
            (''code'', numberOrString (getProp v ''code'')),
            (''status'', numberOrString (getProp v ''status'')),
            (''expose'', onlyOfType TBoolean (getProp v ''expose'')),
            (''fileName'', onlyOfType TString (getProp v ''fileName'')),
            (''lineNumber'', onlyOfType TNumber (getProp v ''lineNumber'')),
            (''columnNumber'', onlyOfType TNumber (getProp v ''columnNumber''))], s)
      else (v, s))"

text \<open>\<open>args.map(this.mapValue, this)\<close>.\<close>

fun mapValues :: "env \<Rightarrow> port_state \<Rightarrow> jsval list \<Rightarrow> jsval list \<times> port_state" where
  "mapValues E s [] = ([], s)"
| "mapValues E s (v # vs) =
     (let (w, s1) = mapValue E s v; (ws, s2) = mapValues E s1 vs in (w # ws, s2))"

text \<open>\<open>Object.assign(target, source)\<close> on property lists, and \<open>delete value[k]\<close>.\<close>

definition assignProps :: "(string \<times> jsval) list \<Rightarrow> (string \<times> jsval) list \<Rightarrow> (string \<times> jsval) list" where
  "assignProps target source = fold (\<lambda>(k, v) acc. AList.update k v acc) source target"

text \<open>The properties a new \<open>Error\<close> of class \<open>cls\<close> made without a message shows.\<close>

definition emptyErrorProps :: "string \<Rightarrow> (string \<times> jsval) list" where
  "emptyErrorProps cls = [(''message'', Str []), (''stack'', Str cls), (''name'', Str cls)]"

text \<open>\<open>this.id2cb.get(cbId)\<close> for a \<open>cbId\<close> that came in a message. The Map compares an
  array or an object by identity, and what comes in a message is a clone (the adapter hands
  \<open>onData\<close> JSON clones), so only a primitive id can be found. An entry of \<open>id2cb\<close> under an
  array or an object is written and deleted, but never read.\<close>

definition primitive :: "jsval \<Rightarrow> bool" where
  "primitive v = (typeof v \<noteq> TObject \<and> typeof v \<noteq> TFunction \<or> v = Null)"

definition id2cbGet :: "port_state \<Rightarrow> jsval \<Rightarrow> func option" where
  "id2cbGet s cbId = (if primitive cbId then id2cb s cbId else None)"

text \<open>\<open>unmapValue\<close>: \<open>Inl\<close> is a thrown value. In case 2 the construction under the name
  found in \<open>globalThis\<close>, or the assignment to what it made, can throw; without a function
  of that name the class is \<open>Error\<close>.\<close>

definition unmapValue :: "env \<Rightarrow> port_state \<Rightarrow> jsval \<Rightarrow> (jsval + jsval) \<times> port_state" where
  "unmapValue E s v =
     (if typeof v \<noteq> TObject \<or> v = Null \<or> \<not> hasOwn v [] then (Inr v, s)
      else
        let tag = getProp v [] in
        if tag = Num 0 then (Inr (getProp v ''raw''), s)
        else if tag = Num 1 then
          (let cbId = getProp v ''cb'';
               (callback, s1) =
                  (case id2cbGet s cbId of
                     Some f \<Rightarrow> (f, s)
                   | None \<Rightarrow> (Stub (stubsMade s) cbId, s\<lparr>stubsMade := stubsMade s + 1\<rparr>))
           in (Inr (Fun callback),
               s1\<lparr>id2cb := (id2cb s1)(cbId \<mapsto> callback), cb2id := (cb2id s1)(callback \<mapsto> cbId)\<rparr>))
        else if tag = Num 2 then
          (case v of
             Obj c props \<Rightarrow>
               let rest = AList.delete [] props;
                   n = toStr (getProp (Obj c rest) ''name'')
               in if globalFunction E n then (globalConstruct E n rest, s)
                  else (Inr (Obj (Some ''Error'') (assignProps (emptyErrorProps ''Error'') rest)), s)
           | _ \<Rightarrow> (Inr v, s))
        else (Inl (newError ''TypeError'' ''Can't unmap argument''), s))"

text \<open>\<open>args.map(this.unmapValue, this)\<close> on an array: the first element that throws ends
  the loop; what the earlier elements did to the registry stays.\<close>

fun unmapValues :: "env \<Rightarrow> port_state \<Rightarrow> jsval list \<Rightarrow> (jsval + jsval list) \<times> port_state" where
  "unmapValues E s [] = (Inr [], s)"
| "unmapValues E s (v # vs) =
     (case unmapValue E s v of
        (Inl e, s1) \<Rightarrow> (Inl e, s1)
      | (Inr w, s1) \<Rightarrow>
          (case unmapValues E s1 vs of
             (Inl e, s2) \<Rightarrow> (Inl e, s2)
           | (Inr ws, s2) \<Rightarrow> (Inr (w # ws), s2)))"

text \<open>\<open>args.map(this.unmapValue, this)\<close> on any value: only an array has a \<open>map\<close>.\<close>

definition unmapArgs :: "env \<Rightarrow> port_state \<Rightarrow> jsval \<Rightarrow> (jsval + jsval list) \<times> port_state" where
  "unmapArgs E s args =
     (case args of
        Arr xs \<Rightarrow> unmapValues E s xs
      | Undefined \<Rightarrow> (Inl (readError Undefined), s)
      | Null \<Rightarrow> (Inl (readError Null), s)
      | _ \<Rightarrow> (Inl (newError ''TypeError'' ''args.map is not a function''), s))"

text \<open>\<open>new PromiseCapability\<close>, and its \<open>resolve\<close> and \<open>reject\<close>: a settled promise stays as
  it is.\<close>

definition newCapability :: "port_state \<Rightarrow> nat \<times> port_state" where
  "newCapability s = (length (promises s), s\<lparr>promises := promises s @ [Pending]\<rparr>)"

definition settle :: "nat \<Rightarrow> promiseState \<Rightarrow> port_state \<Rightarrow> port_state" where
  "settle p r s =
     (if p < length (promises s) \<and> promises s ! p = Pending
      then s\<lparr>promises := (promises s)[p := r]\<rparr> else s)"

text \<open>The stub that \<open>unmapValue\<close> makes for \<open>cbId\<close>, called with \<open>args\<close>.\<close>

definition callStub :: "env \<Rightarrow> port_state \<Rightarrow> jsval \<Rightarrow> jsval list \<Rightarrow> (jsval + jsval) \<times> port_state" where
  "callStub E s cbId args =
     (if \<not> public s then (Inl (newError ''Error'' ''Remote callback connection is closed''), s)
      else
        let (i, s1) = nextId s;
            (mapped, s2) = mapValues E s1 args
        in case portSend E s2 (Str []) (Num 0) (Arr [Num i, Num 0, cbId, Arr mapped]) Null of
             (Inl e, s3) \<Rightarrow> (Inl e, s3)
           | (Inr promise, s3) \<Rightarrow>
               if promise \<noteq> Undefined then (Inr promise, s3)
               else (let (p, s4) = newCapability s3
                     in (Inr (Prom p), s4\<lparr>requests := AList.update i p (requests s4)\<rparr>)))"

text \<open>A call \<open>f.apply(this, args)\<close> of a function value.\<close>

definition callFn ::
  "env \<Rightarrow> port_state \<Rightarrow> func \<Rightarrow> jsval \<Rightarrow> jsval list \<Rightarrow> (jsval + jsval) \<times> port_state" where
  "callFn E s f this args =
     (case f of
        AppFn n nm \<Rightarrow> (appFn E n (isRequestFlag s) this args, s)
      | Stub n cbId \<Rightarrow> callStub E s cbId args)"

section \<open>The handler registry\<close>

text \<open>The first argument of \<open>addHandler\<close>: a RegExp (the \<open>r\<close>-th), or any other value.\<close>

datatype handlerName = Pattern nat | Named jsval

definition functionName :: "func \<Rightarrow> string" where
  "functionName f = (case f of AppFn n nm \<Rightarrow> nm | Stub n cbId \<Rightarrow> [])"

definition addHandler ::
  "port_state \<Rightarrow> handlerName \<Rightarrow> jsval \<Rightarrow> jsval \<Rightarrow> (jsval + jsval) \<times> port_state" where
  "addHandler s name0 handler0 thisArg0 =
     (let (name, handler, thisArg) =
            (case name0 of
               Named (Fun f) \<Rightarrow> (Named (Str (functionName f)), Fun f, handler0)
             | _ \<Rightarrow> (name0, handler0, thisArg0))
      in case handler of
           Fun h \<Rightarrow>
             (case name of
                Named (Str n) \<Rightarrow>
                  if n \<noteq> [] then
                    (if handlers s n \<noteq> None
                     then (Inl (newError ''Error'' (''Duplicate message handler for '' @ quoted n)), s)
                     else (Inr Undefined, s\<lparr>handlers := (handlers s)(n \<mapsto> (h, thisArg))\<rparr>))
                  else (Inl (newError ''TypeError''
                               ''Handler names must be non-empty strings or RegExp wildcards''), s)
              | Named v \<Rightarrow>
                  (Inl (newError ''TypeError''
                          ''Handler names must be non-empty strings or RegExp wildcards''), s)
              | Pattern r \<Rightarrow> (Inr Undefined, s\<lparr>wildcards := AList.update r (h, thisArg) (wildcards s)\<rparr>))
         | _ \<Rightarrow> (Inl (newError ''TypeError'' ''Message handlers must be functions''), s))"

text \<open>The list \<open>add\<close> of \<open>addHandlers\<close>: the pairs of a name and a function, for the entries
  whose value is a function. \<open>None\<close> where \<open>Object.keys\<close> throws (on \<open>null\<close>).\<close>

definition batchEntries :: "jsval \<Rightarrow> (jsval \<times> func) list option" where
  "batchEntries hs =
     (case hs of
        Arr fs \<Rightarrow> Some (concat (map (\<lambda>f. case f of Fun g \<Rightarrow> [(Str (functionName g), g)] | _ \<Rightarrow> []) fs))
      | Obj c props \<Rightarrow>
          Some (concat (map (\<lambda>k. case getProp hs k of Fun g \<Rightarrow> [(Str k, g)] | _ \<Rightarrow> []) (map fst props)))
      | Null \<Rightarrow> None
      | _ \<Rightarrow> Some [])"

text \<open>The first \<open>add.forEach\<close>: the error of the first entry that fails its checks.\<close>

fun checkBatch :: "port_state \<Rightarrow> (jsval \<times> func) list \<Rightarrow> jsval option" where
  "checkBatch s [] = None"
| "checkBatch s ((name, f) # rest) =
     (case name of
        Str n \<Rightarrow>
          if n = [] then Some (newError ''TypeError'' ''Handler names must be non-empty strings'')
          else if handlers s n \<noteq> None
          then Some (newError ''Error'' (''Duplicate message handler for '' @ quoted n))
          else checkBatch s rest
      | _ \<Rightarrow> Some (newError ''TypeError'' ''Handler names must be non-empty strings''))"

text \<open>The second \<open>add.forEach\<close>.\<close>

fun registerBatch :: "string \<Rightarrow> jsval \<Rightarrow> (jsval \<times> func) list \<Rightarrow> port_state \<Rightarrow> port_state" where
  "registerBatch prefix thisArg [] s = s"
| "registerBatch prefix thisArg ((name, f) # rest) s =
     registerBatch prefix thisArg rest
       (s\<lparr>handlers := (handlers s)(prefix @ toStr name \<mapsto> (f, thisArg))\<rparr>)"

definition addHandlers ::
  "port_state \<Rightarrow> jsval \<Rightarrow> jsval \<Rightarrow> jsval \<Rightarrow> (jsval + jsval) \<times> port_state" where
  "addHandlers s prefix0 handlers0 thisArg0 =
     (let (prefix, hs, thisArg) =
            (if typeof prefix0 = TObject then (Str [], prefix0, handlers0)
             else (prefix0, handlers0, thisArg0))
      in case prefix of
           Str pre \<Rightarrow>
             if typeof hs \<noteq> TObject
             then (Inl (newError ''TypeError''
                     (CHR 0x27 # ''handlers'' @ CHR 0x27 # '' argument must be an object (or Array)'')), s)
             else
               (case batchEntries hs of
                  None \<Rightarrow> (Inl (newError ''TypeError'' ''Cannot convert undefined or null to object''), s)
                | Some add \<Rightarrow>
                    (case checkBatch s add of
                       Some e \<Rightarrow> (Inl e, s)
                     | None \<Rightarrow> (Inr Undefined, registerBatch pre thisArg add s)))
         | _ \<Rightarrow> (Inl (newError ''TypeError'' ''Handler name prefixes must be strings (or omitted)''), s))"

definition removeHandler :: "port_state \<Rightarrow> handlerName \<Rightarrow> port_state" where
  "removeHandler s name =
     (case name of
        Named (Str n) \<Rightarrow> s\<lparr>handlers := (handlers s)(n := None)\<rparr>
      | Named v \<Rightarrow> s
      | Pattern r \<Rightarrow> s\<lparr>wildcards := AList.delete r (wildcards s)\<rparr>)"

definition hasHandler :: "port_state \<Rightarrow> handlerName \<Rightarrow> bool" where
  "hasHandler s name =
     (case name of
        Named (Str n) \<Rightarrow> handlers s n \<noteq> None
      | Named v \<Rightarrow> False
      | Pattern r \<Rightarrow> map_of (wildcards s) r \<noteq> None)"

section \<open>Requests, posts and callbacks\<close>

text \<open>The head of \<open>request\<close>, \<open>post\<close> and \<open>afterEnded\<close>: an object (or \<open>null\<close>) in first
  place is the options, and the name is shifted off the arguments.\<close>

definition shiftOptions :: "jsval \<Rightarrow> jsval list \<Rightarrow> jsval \<times> jsval \<times> jsval list" where
  "shiftOptions name args =
     (if typeof name = TObject
      then (name, (case args of [] \<Rightarrow> Undefined | a # as \<Rightarrow> a), tl args)
      else (Null, name, args))"

definition nameError :: jsval where
  "nameError = newError ''TypeError'' ''The request name must be a string''"

definition request :: "env \<Rightarrow> port_state \<Rightarrow> jsval \<Rightarrow> jsval list \<Rightarrow> (jsval + jsval) \<times> port_state" where
  "request E s name0 args0 =
     (let (options, name, args) = shiftOptions name0 args0 in
      if typeof name \<noteq> TString then (Inl nameError, s)
      else
        let (i, s1) = nextId s;
            (mapped, s2) = mapValues E s1 args
        in case portSend E s2 name (Num i) (Arr mapped) options of
             (Inl e, s3) \<Rightarrow> (Inl e, s3)
           | (Inr v, s3) \<Rightarrow>
               if v \<noteq> Undefined then (Inr v, s3)
               else (let (p, s4) = newCapability s3
                     in (Inr (Prom p), s4\<lparr>requests := AList.update i p (requests s4)\<rparr>)))"

definition post :: "env \<Rightarrow> port_state \<Rightarrow> jsval \<Rightarrow> jsval list \<Rightarrow> (jsval + jsval) \<times> port_state" where
  "post E s name0 args0 =
     (let (options, name, args) = shiftOptions name0 args0 in
      if typeof name \<noteq> TString then (Inl nameError, s)
      else
        let (mapped, s1) = mapValues E s args
        in case portSend E s1 name (Num 0) (Arr mapped) options of
             (Inl e, s2) \<Rightarrow> (Inl e, s2)
           | (Inr v, s2) \<Rightarrow> (Inr Undefined, s2))"

definition afterEnded :: "env \<Rightarrow> port_state \<Rightarrow> jsval \<Rightarrow> jsval list \<Rightarrow> (jsval + jsval) \<times> port_state" where
  "afterEnded E s name0 args0 =
     (let (options, name, args) = shiftOptions name0 args0 in
      if typeof name \<noteq> TString then (Inl nameError, s)
      else
        let (mapped, s1) = mapValues E s args
        in case portSend E s1 (Str []) (Num 0) (Arr [Num 0, Num 1, name, Arr mapped]) options of
             (Inl e, s2) \<Rightarrow> (Inl e, s2)
           | (Inr v, s2) \<Rightarrow> (Inr Undefined, s2))"

definition isRequest :: "port_state \<Rightarrow> jsval + jsval" where
  "isRequest s =
     (if isRequestFlag s = - 1 then Inr (Bool False)
      else if isRequestFlag s = 1 then Inr (Bool True)
      else Inl (newError ''Error''
             ''Port.isRequest() may only be called while the port is in a synchronous handler''))"

text \<open>\<open>this.cb2id.get(callback)\<close>: the WeakMap holds functions only.\<close>

definition cb2idGet :: "port_state \<Rightarrow> jsval \<Rightarrow> jsval" where
  "cb2idGet s callback =
     (case callback of
        Fun f \<Rightarrow> (case cb2id s f of Some i \<Rightarrow> i | None \<Rightarrow> Undefined)
      | _ \<Rightarrow> Undefined)"

definition releaseCallback ::
  "env \<Rightarrow> port_state \<Rightarrow> jsval \<Rightarrow> bool \<Rightarrow> (jsval + jsval) \<times> port_state" where
  "releaseCallback E s callback remote =
     (let cbId = cb2idGet s callback in
      if \<not> truthy cbId then (Inr Undefined, s)
      else
        let s1 = s\<lparr>id2cb := (id2cb s)(cbId := None),
                   cb2id := (case callback of Fun f \<Rightarrow> (cb2id s)(f := None) | _ \<Rightarrow> cb2id s)\<rparr>
        in if remote then (Inr Undefined, s1)
           else (case portSend E s1 (Str []) (Num 0) (Arr [Num 0, Num 2, cbId]) Null of
                   (Inl e, s2) \<Rightarrow> (Inl e, s2)
                 | (Inr v, s2) \<Rightarrow> (Inr Undefined, s2)))"

section \<open>Inbound messages\<close>

text \<open>How the \<open>try\<close> block of the request branch ends: with a thrown value, with the value
  of the handler or callback, or with an early \<open>return\<close>.\<close>

datatype handled = Thrown jsval | Value jsval | Done bool

text \<open>\<open>reply ? reply('', id, [payload]) : this.port.send('', id, [payload])\<close>.\<close>

definition sendReply ::
  "env \<Rightarrow> port_state \<Rightarrow> bool \<Rightarrow> jsval \<Rightarrow> jsval \<Rightarrow> (jsval + jsval) \<times> port_state" where
  "sendReply E s reply i payload =
     (if reply then (Inr Undefined, s\<lparr>replied := replied s @ [(Str [], i, Arr [payload])]\<rparr>)
      else portSend E s (Str []) i (Arr [payload]) Undefined)"

text \<open>The special requests, on the empty name and id 0. The result carries the id that
  \<open>id = args[0]\<close> assigned (the old one when that read threw).\<close>

definition specialRequest ::
  "env \<Rightarrow> port_state \<Rightarrow> jsval \<Rightarrow> jsval \<Rightarrow> (handled \<times> jsval) \<times> port_state" where
  "specialRequest E s i0 args =
     (if nullish args then ((Thrown (readError args), i0), s)
      else
        let i = elemAt args 0; tag = elemAt args 1 in
        if tag = Num 0 then
          (case id2cbGet s (elemAt args 2) of
             None \<Rightarrow> ((Thrown (newError ''Error'' ''Remote callback has been destroyed''), i), s)
           | Some callback \<Rightarrow>
               (case unmapArgs E s (elemAt args 3) of
                  (Inl e, s1) \<Rightarrow> ((Thrown e, i), s1)
                | (Inr as, s1) \<Rightarrow>
                    (case callFn E s1 callback Null as of
                       (Inl e, s2) \<Rightarrow> ((Thrown e, i), s2)
                     | (Inr v, s2) \<Rightarrow> ((Value v, i), s2))))
        else if tag = Num 1 then
          ((Done False, i), s\<lparr>endQueue := endQueue s @ [(elemAt args 2, elemAt args 3)]\<rparr>)
        else if tag = Num 2 then
          ((Done False, i), s\<lparr>endQueue := endQueue s @ [(elemAt args 2, elemAt args 3)]\<rparr>)
        else ((Thrown (newError ''Error'' ''Bad request''), i), s))"

text \<open>The handler for \<open>name\<close>: the exact one, else the first wildcard that matches, and
  then the name goes in front of the arguments.\<close>

definition exactHandler :: "port_state \<Rightarrow> jsval \<Rightarrow> (func \<times> jsval) option" where
  "exactHandler s name = (case name of Str n \<Rightarrow> handlers s n | _ \<Rightarrow> None)"

definition wildcardHandler :: "env \<Rightarrow> port_state \<Rightarrow> jsval \<Rightarrow> (func \<times> jsval) option" where
  "wildcardHandler E s name =
     (case filter (\<lambda>(r, pair). rxTest E r (toStr name)) (wildcards s) of
        [] \<Rightarrow> None
      | (r, pair) # rest \<Rightarrow> Some pair)"

definition namedRequest ::
  "env \<Rightarrow> port_state \<Rightarrow> jsval \<Rightarrow> jsval \<Rightarrow> jsval \<Rightarrow> jsval \<Rightarrow> bool \<Rightarrow> handled \<times> port_state" where
  "namedRequest E s name i args altThis optional =
     (case unmapArgs E s args of
        (Inl e, s1) \<Rightarrow> (Thrown e, s1)
      | (Inr as, s1) \<Rightarrow>
          (let (found, as') =
                 (case exactHandler s1 name of
                    Some pair \<Rightarrow> (Some pair, as)
                  | None \<Rightarrow> (wildcardHandler E s1 name, name # as))
           in (case found of
                 None \<Rightarrow>
                   (if \<not> optional
                    then (Thrown (newError ''Error'' (''No such handler '' @ quoted (toStr name))), s1)
                    else (Done False, s1))
               | Some (handler, thisArg) \<Rightarrow>
                   (case callFn E (s1\<lparr>isRequestFlag := (if i = Num 0 then - 1 else 1)\<rparr>) handler
                           (if thisArg \<noteq> Undefined then thisArg else altThis) as' of
                      (Inl e, s2) \<Rightarrow> (Thrown e, s2\<lparr>isRequestFlag := 0\<rparr>)
                    | (Inr v, s2) \<Rightarrow> (Value v, s2\<lparr>isRequestFlag := 0\<rparr>)))))"

text \<open>The \<open>catch\<close> of the request branch. Only here can \<open>onData\<close> throw: when the send of
  the error reply throws.\<close>

definition catchRequest ::
  "env \<Rightarrow> port_state \<Rightarrow> jsval \<Rightarrow> bool \<Rightarrow> jsval \<Rightarrow> (jsval + bool) \<times> port_state" where
  "catchRequest E s i reply e =
     (if truthy i then
        (let (w, s1) = mapValue E s e in
         case sendReply E s1 reply (negate i) w of
           (Inl e', s2) \<Rightarrow> (Inl e', s2)
         | (Inr v, s2) \<Rightarrow> (Inr False, s2))
      else (Inr False, s\<lparr>reported := reported s @ [[Str ''Uncaught error in handler (post)'', e]]\<rparr>))"

text \<open>What follows the handler in the \<open>try\<close> block: the reply, or the continuations on a
  promise.\<close>

definition answer ::
  "env \<Rightarrow> port_state \<Rightarrow> jsval \<Rightarrow> bool \<Rightarrow> jsval \<Rightarrow> (jsval + bool) \<times> port_state" where
  "answer E s i reply v =
     (if \<not> isPromise v then
        (if i \<noteq> Num 0 then
           (let (w, s1) = mapValue E s v in
            case sendReply E s1 reply (toNumber i) w of
              (Inl e, s2) \<Rightarrow> catchRequest E s2 i reply e
            | (Inr r, s2) \<Rightarrow> (Inr False, s2))
         else (Inr False, s))
      else
        (case v of
           Prom p \<Rightarrow>
             if i = Num 0 then (Inr False, s\<lparr>attached := attached s @ [(p, ReportRejection)]\<rparr>)
             else (Inr True, s\<lparr>attached := attached s @ [(p, ReplyUnder i reply)]\<rparr>)
         | _ \<Rightarrow> (Inr False, s)))"

text \<open>The reply branch: empty name, an id other than 0.\<close>

definition resolveReply :: "env \<Rightarrow> port_state \<Rightarrow> jsval \<Rightarrow> jsval \<Rightarrow> bool \<times> port_state" where
  "resolveReply E s i0 args =
     (let threw = lessZero i0;
          i = (if threw then negate i0 else i0);
          request = (case i of Num n \<Rightarrow> map_of (requests s) n | _ \<Rightarrow> None);
          s1 = (case i of Num n \<Rightarrow> s\<lparr>requests := AList.delete n (requests s)\<rparr> | _ \<Rightarrow> s)
      in case request of
           None \<Rightarrow>
             (False, s1\<lparr>reported := reported s1 @ [[newError ''Error'' ''Bad or duplicate response id'']]\<rparr>)
         | Some p \<Rightarrow>
             if nullish args then (False, s1\<lparr>reported := reported s1 @ [[readError args]]\<rparr>)
             else
               (case unmapValue E s1 (elemAt args 0) of
                  (Inl e, s2) \<Rightarrow> (False, s2\<lparr>reported := reported s2 @ [[e]]\<rparr>)
                | (Inr v, s2) \<Rightarrow> (False, settle p (if threw then Rejected v else Fulfilled v) s2)))"

text \<open>\<open>onData(name, id, args, altThis, reply, optional)\<close>. \<open>reply\<close> says whether the adapter
  gave a reply function, \<open>optional\<close> whether its flag is truthy. \<open>Inl\<close> is a value thrown to
  the caller, \<open>Inr\<close> the boolean returned.\<close>

definition onData ::
  "env \<Rightarrow> port_state \<Rightarrow> jsval \<Rightarrow> jsval \<Rightarrow> jsval \<Rightarrow> jsval \<Rightarrow> bool \<Rightarrow> bool \<Rightarrow> (jsval + bool) \<times> port_state" where
  "onData E s name i0 args altThis reply optional =
     (if truthy name \<or> i0 = Num 0 then
        (let ((h, i), s1) =
               (if \<not> truthy name \<and> i0 = Num 0 then specialRequest E s i0 args
                else (let (h, s1) = namedRequest E s name i0 args altThis optional in ((h, i0), s1)))
         in case h of
              Thrown e \<Rightarrow> catchRequest E s1 i reply e
            | Done b \<Rightarrow> (Inr b, s1)
            | Value v \<Rightarrow> answer E s1 i reply v)
      else (let (b, s1) = resolveReply E s i0 args in (Inr b, s1)))"

section \<open>Termination\<close>

text \<open>\<open>this.endQueue.forEach(([name, args]) => this.onData(name, 0, args))\<close>, over the
  entries the queue held when the loop began; a throw ends it.\<close>

fun flushQueue :: "env \<Rightarrow> port_state \<Rightarrow> (jsval \<times> jsval) list \<Rightarrow> jsval option \<times> port_state" where
  "flushQueue E s [] = (None, s)"
| "flushQueue E s ((name, args) # rest) =
     (case onData E s name (Num 0) args Undefined False False of
        (Inl e, s1) \<Rightarrow> (Some e, s1)
      | (Inr b, s1) \<Rightarrow> flushQueue E s1 rest)"

definition destroyedError :: jsval where
  "destroyedError = newError ''Error'' ''The Port this request is waiting on was destroyed''"

text \<open>\<open>this.requests.forEach(_ => _.reject(new Error(...)))\<close>.\<close>

definition rejectAll :: "port_state \<Rightarrow> port_state" where
  "rejectAll s = fold (\<lambda>(i, p). settle p (Rejected destroyedError)) (requests s) s"

text \<open>\<open>try { this.port.destroy(); } catch (error) { console.error(error); }\<close>.\<close>

definition destroyAdapter :: "env \<Rightarrow> port_state \<Rightarrow> port_state" where
  "destroyAdapter E s =
     (if port s then
        (let s1 = s\<lparr>adapterDestroyed := adapterDestroyed s + 1\<rparr>
         in case adapterDestroy E of
              None \<Rightarrow> s1
            | Some e \<Rightarrow> s1\<lparr>reported := reported s1 @ [[e]]\<rparr>)
      else s\<lparr>reported := reported s @ [[readError Null]]\<rparr>)"

definition destroy :: "env \<Rightarrow> port_state \<Rightarrow> jsval \<Rightarrow> (jsval + jsval) \<times> port_state" where
  "destroy E s error =
     (if \<not> public s then (Inr Undefined, s)
      else
        (case flushQueue E s (endQueue s) of
           (Some e, s1) \<Rightarrow> (Inl e, s1)
         | (None, s1) \<Rightarrow>
             let s2 = rejectAll s1;
                 s3 = s2\<lparr>requests := [], handlers := Map.empty, id2cb := Map.empty\<rparr>;
                 reason = (if typeof error = TObject then error else Null);
                 s4 = s3\<lparr>ended := (case ended s3 of None \<Rightarrow> Some reason | Some r \<Rightarrow> Some r)\<rparr>;
                 s5 = destroyAdapter E s4
             in (Inr Undefined, s5\<lparr>public := False, port := False\<rparr>)))"

section \<open>The public interface\<close>

text \<open>\<open>getPrivate\<close> on a \<open>Port\<close> object: the error it throws once the port is destroyed.\<close>

definition getPrivate :: "port_state \<Rightarrow> jsval option" where
  "getPrivate s = (if \<not> public s then Some (newError ''Error'' ''Can't use disconnected Port'') else None)"

definition Port_request ::
  "env \<Rightarrow> port_state \<Rightarrow> jsval \<Rightarrow> jsval \<Rightarrow> jsval \<Rightarrow> (jsval + jsval) \<times> port_state" where
  "Port_request E s options name args =
     (case getPrivate s of Some e \<Rightarrow> (Inl e, s) | None \<Rightarrow> request E s options [name, args])"

definition Port_post ::
  "env \<Rightarrow> port_state \<Rightarrow> jsval \<Rightarrow> jsval \<Rightarrow> jsval \<Rightarrow> (jsval + jsval) \<times> port_state" where
  "Port_post E s options name args =
     (case getPrivate s of Some e \<Rightarrow> (Inl e, s) | None \<Rightarrow> post E s options [name, args])"

definition Port_afterEnded ::
  "env \<Rightarrow> port_state \<Rightarrow> jsval \<Rightarrow> jsval \<Rightarrow> jsval \<Rightarrow> (jsval + jsval) \<times> port_state" where
  "Port_afterEnded E s options name args =
     (case getPrivate s of Some e \<Rightarrow> (Inl e, s) | None \<Rightarrow> afterEnded E s options [name, args])"

definition Port_addHandler ::
  "port_state \<Rightarrow> handlerName \<Rightarrow> jsval \<Rightarrow> jsval \<Rightarrow> (jsval + jsval) \<times> port_state" where
  "Port_addHandler s name handler thisArg =
     (case getPrivate s of Some e \<Rightarrow> (Inl e, s) | None \<Rightarrow> addHandler s name handler thisArg)"

definition Port_addHandlers ::
  "port_state \<Rightarrow> jsval \<Rightarrow> jsval \<Rightarrow> jsval \<Rightarrow> (jsval + jsval) \<times> port_state" where
  "Port_addHandlers s prefix hs thisArg =
     (case getPrivate s of Some e \<Rightarrow> (Inl e, s) | None \<Rightarrow> addHandlers s prefix hs thisArg)"

definition Port_removeHandler :: "port_state \<Rightarrow> handlerName \<Rightarrow> (jsval + jsval) \<times> port_state" where
  "Port_removeHandler s name =
     (case getPrivate s of Some e \<Rightarrow> (Inl e, s) | None \<Rightarrow> (Inr Undefined, removeHandler s name))"

definition Port_releaseCallback :: "env \<Rightarrow> port_state \<Rightarrow> jsval \<Rightarrow> (jsval + jsval) \<times> port_state" where
  "Port_releaseCallback E s callback =
     (case getPrivate s of Some e \<Rightarrow> (Inl e, s) | None \<Rightarrow> releaseCallback E s callback False)"

text \<open>\<open>Port.destroy\<close> catches what the implementation throws and reports it.\<close>

definition Port_destroy :: "env \<Rightarrow> port_state \<Rightarrow> jsval \<Rightarrow> port_state" where
  "Port_destroy E s reason =
     (case destroy E s reason of
        (Inl e, s1) \<Rightarrow> s1\<lparr>reported := reported s1 @ [[e]]\<rparr>
      | (Inr v, s1) \<Rightarrow> s1)"

section \<open>A port's lifetime\<close>

text \<open>The continuations that \<open>onData\<close> attached to a handler's promise, run when the
  promise settles (\<open>Inr\<close> a value, \<open>Inl\<close> a rejection): the reply under the id or its
  negation, or the report of the rejection. A throw inside a continuation goes nowhere.\<close>

definition runContinuation :: "env \<Rightarrow> port_state \<Rightarrow> continuation \<Rightarrow> jsval + jsval \<Rightarrow> port_state" where
  "runContinuation E s k outcome =
     (case k of
        ReportRejection \<Rightarrow>
          (case outcome of
             Inl e \<Rightarrow> s\<lparr>reported := reported s @ [[Str ''Uncaught async error in handler (post)'', e]]\<rparr>
           | Inr v \<Rightarrow> s)
      | ReplyUnder i reply \<Rightarrow>
          (case outcome of
             Inr v \<Rightarrow> (let (w, s1) = mapValue E s v in snd (sendReply E s1 reply (toNumber i) w))
           | Inl e \<Rightarrow> (let (w, s1) = mapValue E s e in snd (sendReply E s1 reply (negate i) w))))"

definition settleHandlerPromise :: "env \<Rightarrow> port_state \<Rightarrow> nat \<Rightarrow> jsval + jsval \<Rightarrow> port_state" where
  "settleHandlerPromise E s p outcome =
     fold (\<lambda>(q, k) t. if q = p then runContinuation E t k outcome else t) (attached s)
       (s\<lparr>attached := filter (\<lambda>(q, k). q \<noteq> p) (attached s)\<rparr>)"

text \<open>What can happen to a port: the application calls a method of the public interface
  or a stub it was handed, a promise that a handler returned settles, the adapter delivers
  a message to \<open>onData\<close> or signals the end to \<open>onEnd\<close> (which is \<open>destroy\<close>, bound to the
  port).\<close>

datatype event =
    CallAddHandler handlerName jsval jsval
  | CallAddHandlers jsval jsval jsval
  | CallRemoveHandler handlerName
  | CallRequest jsval jsval jsval
  | CallPost jsval jsval jsval
  | CallAfterEnded jsval jsval jsval
  | CallReleaseCallback jsval
  | CallDestroy jsval
  | CallStub jsval "jsval list"
  | PromiseSettled nat "jsval + jsval"
  | AdapterData jsval jsval jsval jsval bool bool
  | AdapterEnd jsval

fun step :: "env \<Rightarrow> port_state \<Rightarrow> event \<Rightarrow> port_state" where
  "step E s (CallAddHandler name handler thisArg) = snd (Port_addHandler s name handler thisArg)"
| "step E s (CallAddHandlers prefix hs thisArg) = snd (Port_addHandlers s prefix hs thisArg)"
| "step E s (CallRemoveHandler name) = snd (Port_removeHandler s name)"
| "step E s (CallRequest options name args) = snd (Port_request E s options name args)"
| "step E s (CallPost options name args) = snd (Port_post E s options name args)"
| "step E s (CallAfterEnded options name args) = snd (Port_afterEnded E s options name args)"
| "step E s (CallReleaseCallback callback) = snd (Port_releaseCallback E s callback)"
| "step E s (CallDestroy reason) = Port_destroy E s reason"
| "step E s (CallStub cbId args) = snd (callStub E s cbId args)"
| "step E s (PromiseSettled p outcome) = settleHandlerPromise E s p outcome"
| "step E s (AdapterData name i args altThis reply optional) =
     snd (onData E s name i args altThis reply optional)"
| "step E s (AdapterEnd reason) = snd (destroy E s reason)"

definition run :: "env \<Rightarrow> port_state \<Rightarrow> event list \<Rightarrow> port_state" where
  "run E s evs = fold (\<lambda>ev s'. step E s' ev) evs s"

section \<open>Statements\<close>

text \<open>The wire forms of the mapper, and the surroundings used in the examples: no function
  of the application returns anything, the adapter's \<open>send\<close> returns \<open>undefined\<close>, no wildcard
  matches, every random word is 0, and \<open>globalThis\<close> has three error classes that construct
  and \<open>AggregateError\<close>, whose construction without arguments throws a TypeError.\<close>

definition callbackWire :: "jsval \<Rightarrow> jsval" where
  "callbackWire cbId = Obj (Some ''Object'') [([], Num 1), (''cb'', cbId)]"

definition rawWire :: "jsval \<Rightarrow> jsval" where
  "rawWire v = Obj (Some ''Object'') [([], Num 0), (''raw'', v)]"

definition quietEnv :: env where
  "quietEnv =
     \<lparr> appFn = (\<lambda>n flag this args. Inr Undefined),
       adapterSend = (\<lambda>name i args options. Undefined),
       adapterDestroy = None,
       rxTest = (\<lambda>r name. False),
       randomUint32 = (\<lambda>k. 0),
       globalFunction = (\<lambda>n. n \<in> set [''Error'', ''TypeError'', ''RangeError'', ''AggregateError'']),
       globalConstruct =
         (\<lambda>n props. if n = ''AggregateError''
                     then Inl (newError ''TypeError'' ''undefined is not iterable'')
                     else Inr (Obj (Some n) (assignProps (emptyErrorProps n) props))) \<rparr>"

text \<open>A value has a callback binding when it is a function with an entry in \<open>cb2id\<close>.\<close>

definition hasBinding :: "port_state \<Rightarrow> jsval \<Rightarrow> bool" where
  "hasBinding s v = (case v of Fun f \<Rightarrow> cb2id s f \<noteq> None | _ \<Rightarrow> False)"

text \<open>A new port, destroyed at once.\<close>

definition destroyedPort :: port_state where
  "destroyedPort = newPort\<lparr>ended := Some Null, adapterDestroyed := 1, public := False, port := False\<rparr>"

lemma destroy_newPort: "destroy quietEnv newPort Undefined = (Inr Undefined, destroyedPort)"
  by (simp add: destroy_def rejectAll_def destroyAdapter_def destroyedPort_def quietEnv_def
      newPort_def Let_def)

section \<open>The callback registry interns\<close>

text \<open>The id \<open>getRandomId\<close> makes of the random words \<open>k\<close>, \<open>k + 1\<close> and \<open>k + 2\<close>; an id
  is never drawn when no three words in a row make it.\<close>

definition randomIdAt :: "env \<Rightarrow> nat \<Rightarrow> string" where
  "randomIdAt E k = concat (map (\<lambda>j. toStringRadix 32 (unat (randomUint32 E (k + j)))) [0, 1, 2])"

definition neverDrawn :: "env \<Rightarrow> string \<Rightarrow> bool" where
  "neverDrawn E c = (\<forall>k. randomIdAt E k \<noteq> c)"

text \<open>The mapper at work on one port, with no release and no destroy in between: a value is
  encoded (\<open>mapValue\<close>, for a request, a post or a reply that is sent) or decoded
  (\<open>unmapValue\<close>, for one that is received), in any order.\<close>

datatype mapperOp = Encode jsval | Decode jsval

fun mapperStep :: "env \<Rightarrow> port_state \<Rightarrow> mapperOp \<Rightarrow> port_state" where
  "mapperStep E s (Encode v) = snd (mapValue E s v)"
| "mapperStep E s (Decode w) = snd (unmapValue E s w)"

definition mapperRun :: "env \<Rightarrow> port_state \<Rightarrow> mapperOp list \<Rightarrow> port_state" where
  "mapperRun E s ops = foldl (mapperStep E) s ops"

text \<open>A function is the port's own when it is a function of the application or a stub this
  port has made. Every callback id that resolves to it is its own when that id is truthy and
  the one the function is bound to; this holds of a function that no id resolves to. An id
  is bound where it resolves when every function bound to it is the one it resolves to; this
  holds of an id no function is bound to.\<close>

definition ownFunction :: "port_state \<Rightarrow> func \<Rightarrow> bool" where
  "ownFunction s f = (case f of Stub n c \<Rightarrow> n < stubsMade s | AppFn n name \<Rightarrow> True)"

definition resolvedByOwnId :: "port_state \<Rightarrow> func \<Rightarrow> bool" where
  "resolvedByOwnId s f = (\<forall>d. id2cb s d = Some f \<longrightarrow> cb2id s f = Some d \<and> truthy d)"

definition boundWhereResolved :: "port_state \<Rightarrow> jsval \<Rightarrow> bool" where
  "boundWhereResolved s c = (\<forall>h. cb2id s h = Some c \<longrightarrow> id2cb s c = Some h)"

text \<open>What every later encoding and decoding keeps: the function is bound to a truthy id,
  and no other id resolves to it; the id resolves to the function, and no other function is
  bound to it.\<close>

definition interned :: "port_state \<Rightarrow> func \<Rightarrow> jsval \<Rightarrow> bool" where
  "interned s f i = (cb2id s f = Some i \<and> truthy i \<and> (\<forall>d. id2cb s d = Some f \<longrightarrow> d = i)
     \<and> ownFunction s f)"

definition resolved :: "port_state \<Rightarrow> jsval \<Rightarrow> func \<Rightarrow> bool" where
  "resolved s c g = (id2cb s c = Some g \<and> (\<forall>h. cb2id s h = Some c \<longrightarrow> h = g))"

lemma toStringRadix_nonempty: "toStringRadix r n \<noteq> []"
  by (subst toStringRadix.simps) simp

lemma getRandomId_at: "fst (getRandomId E s) = randomIdAt E (randomDrawn s)"
  by (simp add: getRandomId_def randomIdAt_def)

lemma getRandomId_truthy: "truthy (Str (fst (getRandomId E s)))"
  by (simp add: getRandomId_def toStringRadix_nonempty)

lemma getRandomId_maps [simp]:
  "cb2id (snd (getRandomId E s)) = cb2id s" "id2cb (snd (getRandomId E s)) = id2cb s"
  "stubsMade (snd (getRandomId E s)) = stubsMade s"
  by (simp_all add: getRandomId_def)

text \<open>What \<open>mapValue\<close> does to the registry when it is given a function: the id is the one
  the function is bound to when that is truthy, else a new random one.\<close>

definition encodedId :: "env \<Rightarrow> port_state \<Rightarrow> func \<Rightarrow> jsval" where
  "encodedId E s h = (case cb2id s h of Some i \<Rightarrow> if truthy i then i else Str (fst (getRandomId E s))
                      | None \<Rightarrow> Str (fst (getRandomId E s)))"

lemma mapValue_fun:
  "fst (mapValue E s (Fun h)) = callbackWire (encodedId E s h)"
  "cb2id (snd (mapValue E s (Fun h))) = (cb2id s)(h \<mapsto> encodedId E s h)"
  "id2cb (snd (mapValue E s (Fun h))) = (id2cb s)(encodedId E s h \<mapsto> h)"
  "stubsMade (snd (mapValue E s (Fun h))) = stubsMade s"
  by (auto simp: mapValue_def callbackWire_def encodedId_def Let_def getRandomId_def
           split: option.splits prod.splits)

lemma mapValue_other:
  "typeof v \<noteq> TFunction \<Longrightarrow> snd (mapValue E s v) = s"
  by (cases v) (auto simp: mapValue_def Let_def)

lemma encodedId_truthy: "truthy (encodedId E s h)"
  using getRandomId_truthy [of E s]
  by (auto simp: encodedId_def split: option.splits)

lemma mapValue_interned:
  assumes "interned s f i"
  shows "interned (snd (mapValue E s v)) f i"
proof (cases v)
  case (Fun h)
  show ?thesis
  proof (cases "h = f")
    case True
    have "encodedId E s f = i" using assms by (simp add: encodedId_def interned_def)
    then show ?thesis using assms Fun True
      by (auto simp: interned_def mapValue_fun ownFunction_def split: func.splits)
  next
    case False
    then show ?thesis using assms Fun
      by (auto simp: interned_def mapValue_fun ownFunction_def split: func.splits)
  qed
qed (use assms in \<open>simp_all add: mapValue_other\<close>)

text \<open>What \<open>unmapValue\<close> does to the registry: the function is the one the id resolves
  to, else a new stub.\<close>

definition decodedFn :: "port_state \<Rightarrow> jsval \<Rightarrow> func" where
  "decodedFn s c = (case id2cbGet s c of Some g \<Rightarrow> g | None \<Rightarrow> Stub (stubsMade s) c)"

lemma unmapValue_wire:
  "fst (unmapValue E s (callbackWire c)) = Inr (Fun (decodedFn s c))"
  "cb2id (snd (unmapValue E s (callbackWire c))) = (cb2id s)(decodedFn s c \<mapsto> c)"
  "id2cb (snd (unmapValue E s (callbackWire c))) = (id2cb s)(c \<mapsto> decodedFn s c)"
  "stubsMade (snd (unmapValue E s (callbackWire c))) \<ge> stubsMade s"
  by (auto simp: unmapValue_def callbackWire_def decodedFn_def Let_def split: option.splits)

lemma unmapValue_cases:
  "snd (unmapValue E s w) = s
   \<or> (cb2id (snd (unmapValue E s w)) = (cb2id s)(decodedFn s (getProp w ''cb'') \<mapsto> getProp w ''cb'')
        \<and> id2cb (snd (unmapValue E s w)) = (id2cb s)(getProp w ''cb'' \<mapsto> decodedFn s (getProp w ''cb''))
        \<and> stubsMade (snd (unmapValue E s w)) \<ge> stubsMade s)"
  by (auto simp: unmapValue_def decodedFn_def Let_def split: option.splits jsval.splits)

lemma decodedFn_cases:
  "(primitive c \<and> id2cb s c = Some (decodedFn s c)) \<or> decodedFn s c = Stub (stubsMade s) c"
  by (auto simp: decodedFn_def id2cbGet_def split: option.splits)

lemma unmapValue_interned:
  assumes "interned s f i"
  shows "interned (snd (unmapValue E s w)) f i"
  using unmapValue_cases [of E s w]
proof
  assume "snd (unmapValue E s w) = s"
  then show ?thesis using assms by simp
next
  assume "cb2id (snd (unmapValue E s w)) = (cb2id s)(decodedFn s (getProp w ''cb'') \<mapsto> getProp w ''cb'')
        \<and> id2cb (snd (unmapValue E s w)) = (id2cb s)(getProp w ''cb'' \<mapsto> decodedFn s (getProp w ''cb''))
        \<and> stubsMade (snd (unmapValue E s w)) \<ge> stubsMade s"
  then obtain c where c: "cb2id (snd (unmapValue E s w)) = (cb2id s)(decodedFn s c \<mapsto> c)"
    "id2cb (snd (unmapValue E s w)) = (id2cb s)(c \<mapsto> decodedFn s c)"
    "stubsMade (snd (unmapValue E s w)) \<ge> stubsMade s" by blast
  have own: "ownFunction (snd (unmapValue E s w)) f"
    using assms c(3) by (auto simp: interned_def ownFunction_def split: func.splits)
  have eq: "c = i" if "decodedFn s c = f"
    using decodedFn_cases [of c s] that assms
    by (auto simp: interned_def ownFunction_def)
  show ?thesis
    using assms own eq by (auto simp: interned_def c(1,2))
qed

lemma mapperRun_interned:
  "interned s f i \<Longrightarrow> interned (mapperRun E s ops) f i"
  unfolding mapperRun_def
proof (induction ops arbitrary: s)
  case Nil
  then show ?case by simp
next
  case (Cons a ops)
  have "interned (mapperStep E s a) f i"
    using Cons.prems by (cases a) (simp_all add: mapValue_interned unmapValue_interned)
  then show ?case using Cons.IH by simp
qed

lemma mapValue_first:
  assumes "resolvedByOwnId s f" and "ownFunction s f"
  shows "interned (snd (mapValue E s (Fun f))) f (encodedId E s f)"
proof -
  have "d = encodedId E s f" if "id2cb s d = Some f" for d
    using assms(1) that by (auto simp: resolvedByOwnId_def encodedId_def)
  then show ?thesis
    using assms(2) encodedId_truthy [of E s f]
    by (auto simp: interned_def mapValue_fun ownFunction_def split: func.splits)
qed

lemma mapValue_resolved:
  assumes "neverDrawn E c" and "resolved s (Str c) g"
  shows "resolved (snd (mapValue E s v)) (Str c) g"
proof (cases v)
  case (Fun h)
  have "h = g" if "encodedId E s h = Str c"
    using that assms by (auto simp: encodedId_def resolved_def neverDrawn_def getRandomId_at
        split: option.splits if_splits)
  then show ?thesis using assms(2) Fun
    by (auto simp: resolved_def mapValue_fun)
qed (use assms in \<open>simp_all add: mapValue_other\<close>)

lemma unmapValue_resolved:
  assumes "resolved s (Str c) g"
  shows "resolved (snd (unmapValue E s w)) (Str c) g"
  using unmapValue_cases [of E s w]
proof
  assume "snd (unmapValue E s w) = s"
  then show ?thesis using assms by simp
next
  assume "cb2id (snd (unmapValue E s w)) = (cb2id s)(decodedFn s (getProp w ''cb'') \<mapsto> getProp w ''cb'')
        \<and> id2cb (snd (unmapValue E s w)) = (id2cb s)(getProp w ''cb'' \<mapsto> decodedFn s (getProp w ''cb''))
        \<and> stubsMade (snd (unmapValue E s w)) \<ge> stubsMade s"
  then obtain d where d: "cb2id (snd (unmapValue E s w)) = (cb2id s)(decodedFn s d \<mapsto> d)"
    "id2cb (snd (unmapValue E s w)) = (id2cb s)(d \<mapsto> decodedFn s d)" by blast
  have "decodedFn s (Str c) = g"
    using assms by (simp add: decodedFn_def id2cbGet_def primitive_def resolved_def)
  then show ?thesis
    using assms by (auto simp: resolved_def d)
qed

lemma mapperRun_resolved:
  "neverDrawn E c \<Longrightarrow> resolved s (Str c) g \<Longrightarrow> resolved (mapperRun E s ops) (Str c) g"
  unfolding mapperRun_def
proof (induction ops arbitrary: s)
  case Nil
  then show ?case by simp
next
  case (Cons a ops)
  have "resolved (mapperStep E s a) (Str c) g"
    using Cons.prems by (cases a) (simp_all add: mapValue_resolved unmapValue_resolved)
  then show ?case using Cons.IH Cons.prems(1) by simp
qed

lemma unmapValue_first:
  assumes "boundWhereResolved s (Str c)"
  shows "resolved (snd (unmapValue E s (callbackWire (Str c)))) (Str c) (decodedFn s (Str c))"
proof -
  have "h = decodedFn s (Str c)" if "cb2id s h = Some (Str c)" for h
    using assms that by (auto simp: boundWhereResolved_def decodedFn_def id2cbGet_def primitive_def)
  then show ?thesis
    by (auto simp: resolved_def unmapValue_wire)
qed

lemma unmapValue_again:
  "resolved s (Str c) g \<Longrightarrow> fst (unmapValue E s (callbackWire (Str c))) = Inr (Fun g)"
  by (simp add: unmapValue_wire decodedFn_def id2cbGet_def primitive_def resolved_def)

lemma mapValue_again:
  "interned s f i \<Longrightarrow> fst (mapValue E s (Fun f)) = callbackWire i"
  by (simp add: mapValue_fun encodedId_def interned_def)

text \<open>Surroundings whose random source counts: the words are 0, 1, 2, ... and the ids drawn
  are \<open>012\<close>, \<open>345\<close>, ...\<close>

definition countingEnv :: env where
  "countingEnv = quietEnv\<lparr>randomUint32 := of_nat\<rparr>"

text \<open>A new port that has decoded the callback id \<open>k\<close>.\<close>

lemma decode_k:
  "mapperRun quietEnv newPort [Decode (callbackWire (Str ''k''))]
     = newPort\<lparr>stubsMade := 1, id2cb := [Str ''k'' \<mapsto> Stub 0 (Str ''k'')],
         cb2id := [Stub 0 (Str ''k'') \<mapsto> Str ''k'']\<rparr>"
  by (simp add: mapperRun_def unmapValue_def callbackWire_def id2cbGet_def primitive_def newPort_def Let_def)

text \<open>
  Claim C7, as the code has it. On one port, with no release and no destroy in between:
  a function encoded again, after any encodings and decodings in any order, gets the
  callback id of its first encoding, a truthy one, provided the function is the port's own
  and, at the first encoding, every id that resolves to it is its own; and a callback id
  (a string) decoded again, after any encodings and decodings in any order, gives the
  function of its first decoding, the very same one, provided the random source never draws
  that id and, at the first decoding, the id is bound where it resolves. The list of
  operations in between is arbitrary and may hold further encodings of the function and
  decodings of the id, so every one of them gives the same.
\<close>

theorem interning_across_interleavings:
  "(resolvedByOwnId s f \<and> ownFunction s f \<longrightarrow>
      fst (mapValue E (mapperRun E (snd (mapValue E s (Fun f))) ops) (Fun f))
        = fst (mapValue E s (Fun f))
      \<and> (\<exists>i. truthy i \<and> fst (mapValue E s (Fun f)) = callbackWire i))
   \<and> (neverDrawn E c \<and> boundWhereResolved s (Str c) \<longrightarrow>
      fst (unmapValue E (mapperRun E (snd (unmapValue E s (callbackWire (Str c)))) ops')
            (callbackWire (Str c)))
        = fst (unmapValue E s (callbackWire (Str c)))
      \<and> (\<exists>g. fst (unmapValue E s (callbackWire (Str c))) = Inr (Fun g)))"
proof (intro conjI impI)
  assume a: "resolvedByOwnId s f \<and> ownFunction s f"
  have "interned (snd (mapValue E s (Fun f))) f (encodedId E s f)"
    using a by (simp add: mapValue_first)
  then have "interned (mapperRun E (snd (mapValue E s (Fun f))) ops) f (encodedId E s f)"
    by (rule mapperRun_interned)
  then have "fst (mapValue E (mapperRun E (snd (mapValue E s (Fun f))) ops) (Fun f))
        = callbackWire (encodedId E s f)"
    by (rule mapValue_again)
  then show "fst (mapValue E (mapperRun E (snd (mapValue E s (Fun f))) ops) (Fun f))
        = fst (mapValue E s (Fun f))"
    by (simp add: mapValue_fun(1))
  show "\<exists>i. truthy i \<and> fst (mapValue E s (Fun f)) = callbackWire i"
    using encodedId_truthy [of E s f] by (auto simp: mapValue_fun)
next
  assume b: "neverDrawn E c \<and> boundWhereResolved s (Str c)"
  have "resolved (snd (unmapValue E s (callbackWire (Str c)))) (Str c) (decodedFn s (Str c))"
    using b by (simp add: unmapValue_first)
  then have "resolved (mapperRun E (snd (unmapValue E s (callbackWire (Str c)))) ops') (Str c)
      (decodedFn s (Str c))"
    using b mapperRun_resolved by blast
  then have "fst (unmapValue E (mapperRun E (snd (unmapValue E s (callbackWire (Str c)))) ops')
            (callbackWire (Str c))) = Inr (Fun (decodedFn s (Str c)))"
    by (rule unmapValue_again)
  then show "fst (unmapValue E (mapperRun E (snd (unmapValue E s (callbackWire (Str c)))) ops')
            (callbackWire (Str c)))
        = fst (unmapValue E s (callbackWire (Str c)))"
    by (simp add: unmapValue_wire(1))
  show "\<exists>g. fst (unmapValue E s (callbackWire (Str c))) = Inr (Fun g)"
    by (simp add: unmapValue_wire)
qed

theorem interning_across_interleavings_witness:
  "resolvedByOwnId (mapperRun quietEnv newPort [Decode (callbackWire (Str ''k''))]) (Stub 0 (Str ''k''))
   \<and> ownFunction (mapperRun quietEnv newPort [Decode (callbackWire (Str ''k''))]) (Stub 0 (Str ''k''))
   \<and> fst (mapValue quietEnv
        (mapperRun quietEnv
           (snd (mapValue quietEnv (mapperRun quietEnv newPort [Decode (callbackWire (Str ''k''))])
                  (Fun (Stub 0 (Str ''k'')))))
           [Decode (callbackWire (Str ''k'')), Encode (Fun (AppFn 1 ''g'')), Decode (callbackWire (Str []))])
        (Fun (Stub 0 (Str ''k''))))
      = callbackWire (Str ''k'')
   \<and> neverDrawn quietEnv ''k'' \<and> boundWhereResolved newPort (Str ''k'')
   \<and> fst (unmapValue quietEnv
        (mapperRun quietEnv (snd (unmapValue quietEnv newPort (callbackWire (Str ''k''))))
           [Encode (Fun (Stub 0 (Str ''k''))), Decode (callbackWire (Str ''j'')), Encode (Fun (AppFn 1 ''g''))])
        (callbackWire (Str ''k'')))
      = Inr (Fun (Stub 0 (Str ''k'')))"
proof -
  let ?s = "mapperRun quietEnv newPort [Decode (callbackWire (Str ''k''))]"
  have a: "resolvedByOwnId ?s (Stub 0 (Str ''k''))"
    by (simp add: decode_k resolvedByOwnId_def)
  have b: "ownFunction ?s (Stub 0 (Str ''k''))"
    by (simp add: decode_k ownFunction_def)
  have c: "fst (mapValue quietEnv ?s (Fun (Stub 0 (Str ''k'')))) = callbackWire (Str ''k'')"
    by (simp add: mapValue_fun encodedId_def decode_k)
  have d: "neverDrawn quietEnv ''k''"
    by (simp add: neverDrawn_def randomIdAt_def quietEnv_def toStringRadix.simps digitChar_def)
  have e: "boundWhereResolved newPort (Str ''k'')"
    by (simp add: boundWhereResolved_def newPort_def)
  have f: "fst (unmapValue quietEnv newPort (callbackWire (Str ''k''))) = Inr (Fun (Stub 0 (Str ''k'')))"
    by (simp add: unmapValue_def callbackWire_def id2cbGet_def primitive_def newPort_def Let_def)
  show ?thesis
    using a b c d e f
      interning_across_interleavings [where E = quietEnv and s = ?s and f = "Stub 0 (Str ''k'')"
        and ops = "[Decode (callbackWire (Str ''k'')), Encode (Fun (AppFn 1 ''g'')), Decode (callbackWire (Str []))]"]
      interning_across_interleavings [where E = quietEnv and s = newPort and c = "''k''"
        and ops' = "[Encode (Fun (Stub 0 (Str ''k''))), Decode (callbackWire (Str ''j'')), Encode (Fun (AppFn 1 ''g''))]"]
    by simp
qed

text \<open>The claim as stated fails in both halves. A peer sends the callback id \<open>''\<close>: the port
  makes the stub, binds it to \<open>''\<close>, and as that id is falsy the first encoding of the stub
  draws \<open>012\<close>; after the same message is decoded once more the stub is bound to \<open>''\<close> again,
  and its next encoding draws \<open>345\<close>. And an id that the random source draws later: \<open>012\<close>
  is decoded to a stub, then a function of the application is encoded for the first time and
  gets \<open>012\<close>, and \<open>012\<close> decoded again gives that function, not the stub.\<close>

theorem interning_lost_counterexample:
  "fst (unmapValue countingEnv newPort (callbackWire (Str []))) = Inr (Fun (Stub 0 (Str [])))
   \<and> fst (mapValue countingEnv (mapperRun countingEnv newPort [Decode (callbackWire (Str []))])
            (Fun (Stub 0 (Str [])))) = callbackWire (Str ''012'')
   \<and> fst (mapValue countingEnv
            (mapperRun countingEnv newPort
               [Decode (callbackWire (Str [])), Encode (Fun (Stub 0 (Str []))), Decode (callbackWire (Str []))])
            (Fun (Stub 0 (Str [])))) = callbackWire (Str ''345'')
   \<and> fst (unmapValue countingEnv newPort (callbackWire (Str ''012''))) = Inr (Fun (Stub 0 (Str ''012'')))
   \<and> fst (unmapValue countingEnv
            (mapperRun countingEnv newPort [Decode (callbackWire (Str ''012'')), Encode (Fun (AppFn 0 ''f''))])
            (callbackWire (Str ''012''))) = Inr (Fun (AppFn 0 ''f''))"
  by (simp add: mapperRun_def unmapValue_def mapValue_def callbackWire_def id2cbGet_def primitive_def
      getRandomId_def toStringRadix.simps digitChar_def countingEnv_def quietEnv_def newPort_def Let_def)

section \<open>Round trips through the mapper\<close>

text \<open>
  Claim C8. A value that is neither a function nor error-like (its constructor's name does
  not end in \<open>Error\<close>) comes back from \<open>unmapValue\<close> as it went into \<open>mapValue\<close>, and
  the port is left as it was. A value without the reserved key \<open>''\<close> passes both ways
  unchanged; an object with that key is wrapped as \<open>{'': 0, raw: v}\<close> and unwrapped again.
\<close>

theorem plain_values_round_trip:
  assumes "typeof v \<noteq> TFunction" and "\<not> errorLike v"
  shows "snd (mapValue E s v) = s
    \<and> unmapValue E s (fst (mapValue E s v)) = (Inr v, s)
    \<and> fst (mapValue E s v) = (if hasOwn v [] then rawWire v else v)
    \<and> unmapValue E s (if hasOwn v [] then rawWire v else v) = (Inr v, s)"
  using assms
  by (cases v) (auto simp: mapValue_def unmapValue_def rawWire_def Let_def)

theorem plain_values_round_trip_witness:
  "typeof (Obj (Some ''Object'') [([], Str ''x''), (''n'', Num 3)]) \<noteq> TFunction
   \<and> \<not> errorLike (Obj (Some ''Object'') [([], Str ''x''), (''n'', Num 3)])
   \<and> fst (mapValue quietEnv newPort (Obj (Some ''Object'') [([], Str ''x''), (''n'', Num 3)]))
       = rawWire (Obj (Some ''Object'') [([], Str ''x''), (''n'', Num 3)])
   \<and> unmapValue quietEnv newPort (rawWire (Obj (Some ''Object'') [([], Str ''x''), (''n'', Num 3)]))
       = (Inr (Obj (Some ''Object'') [([], Str ''x''), (''n'', Num 3)]), newPort)
   \<and> typeof (Arr [Num 1, Str ''two'']) \<noteq> TFunction \<and> \<not> errorLike (Arr [Num 1, Str ''two''])
   \<and> fst (mapValue quietEnv newPort (Arr [Num 1, Str ''two''])) = Arr [Num 1, Str ''two'']
   \<and> unmapValue quietEnv newPort (Arr [Num 1, Str ''two'']) = (Inr (Arr [Num 1, Str ''two'']), newPort)"
proof -
  have a: "typeof (Obj (Some ''Object'') [([], Str ''x''), (''n'', Num 3)]) \<noteq> TFunction" by simp
  have b: "\<not> errorLike (Obj (Some ''Object'') [([], Str ''x''), (''n'', Num 3)])"
    by (simp add: errorLike_def endsWith_def)
  have c: "typeof (Arr [Num 1, Str ''two'']) \<noteq> TFunction" by simp
  have d: "\<not> errorLike (Arr [Num 1, Str ''two''])" by (simp add: errorLike_def)
  show ?thesis
    using a b c d plain_values_round_trip [OF a b, of quietEnv newPort]
      plain_values_round_trip [OF c d, of quietEnv newPort]
    by simp
qed

section \<open>Releasing a callback\<close>

text \<open>
  Claim C10. \<open>releaseCallback\<close> on a value without a callback binding (anything that is not
  a function, or a function with no entry in \<open>cb2id\<close>: never sent, or released) returns
  without a throw and leaves the whole port as it was: nothing is sent and both directions of
  the registry are unchanged. Through the public method the same holds on an open port (on a
  destroyed one \<open>getPrivate\<close> throws first).
\<close>

theorem release_without_binding_is_noop:
  assumes "\<not> hasBinding s v"
  shows "releaseCallback E s v remote = (Inr Undefined, s)
    \<and> (if public s then Port_releaseCallback E s v = (Inr Undefined, s)
        else Port_releaseCallback E s v = (Inl (newError ''Error'' ''Can't use disconnected Port''), s))"
  using assms
  by (auto simp: releaseCallback_def Port_releaseCallback_def getPrivate_def hasBinding_def
      cb2idGet_def Let_def split: jsval.splits option.splits)

theorem release_without_binding_is_noop_witness:
  "\<not> hasBinding newPort (Fun (AppFn 3 ''never sent''))
   \<and> releaseCallback quietEnv newPort (Fun (AppFn 3 ''never sent'')) False = (Inr Undefined, newPort)
   \<and> Port_releaseCallback quietEnv newPort (Fun (AppFn 3 ''never sent'')) = (Inr Undefined, newPort)
   \<and> \<not> hasBinding newPort (Num 7)
   \<and> Port_releaseCallback quietEnv newPort (Num 7) = (Inr Undefined, newPort)"
proof -
  have a: "\<not> hasBinding newPort (Fun (AppFn 3 ''never sent''))"
    by (simp add: hasBinding_def newPort_def)
  have b: "\<not> hasBinding newPort (Num 7)"
    by (simp add: hasBinding_def)
  have p: "public newPort" by (simp add: newPort_def)
  show ?thesis
    using a b p release_without_binding_is_noop [OF a, of quietEnv False]
      release_without_binding_is_noop [OF b, of quietEnv False]
    by simp
qed

text \<open>A function that was sent and then released has no binding left.\<close>

lemma released_has_no_binding:
  "\<not> hasBinding (snd (releaseCallback E (snd (mapValue E s (Fun f))) (Fun f) remote)) (Fun f)"
  by (auto simp: releaseCallback_def mapValue_def hasBinding_def cb2idGet_def Let_def portSend_def
      getRandomId_def toStringRadix_nonempty
      split: option.splits prod.splits)

section \<open>The name of a request\<close>

lemma mapValue_frame_eq:
  "snd (mapValue E s v) = s\<lparr>cb2id := cb2id (snd (mapValue E s v)), id2cb := id2cb (snd (mapValue E s v)),
      randomDrawn := randomDrawn (snd (mapValue E s v))\<rparr>"
  by (cases v) (auto simp: mapValue_def Let_def getRandomId_def split: option.splits prod.splits)

lemma mapValue_frame:
  "\<exists>a b c. snd (mapValue E s v) = s\<lparr>cb2id := a, id2cb := b, randomDrawn := c\<rparr>"
  using mapValue_frame_eq by blast

lemma mapValues_frame:
  "\<exists>a b c. snd (mapValues E s vs) = s\<lparr>cb2id := a, id2cb := b, randomDrawn := c\<rparr>"
proof (induction vs arbitrary: s)
  case Nil
  have "snd (mapValues E s []) = s\<lparr>cb2id := cb2id s, id2cb := id2cb s, randomDrawn := randomDrawn s\<rparr>"
    by simp
  then show ?case by blast
next
  case (Cons v vs)
  obtain a b c where 1: "snd (mapValue E s v) = s\<lparr>cb2id := a, id2cb := b, randomDrawn := c\<rparr>"
    using mapValue_frame by blast
  obtain a' b' c' where 2: "snd (mapValues E (snd (mapValue E s v)) vs)
      = (snd (mapValue E s v))\<lparr>cb2id := a', id2cb := b', randomDrawn := c'\<rparr>"
    using Cons.IH by blast
  have "snd (mapValues E s (v # vs)) = s\<lparr>cb2id := a', id2cb := b', randomDrawn := c'\<rparr>"
    using 1 2 by (simp add: split_beta Let_def)
  then show ?case by blast
qed

text \<open>
  Claim C2, as the code has it. \<open>request\<close> throws its TypeError, with nothing sent, no id
  taken and no entry made (the port is unchanged), exactly for a name that is not a string,
  the name being the argument after an options object if one comes first. Every string is
  accepted, the empty one too: on a live port the message goes to the adapter's \<open>send\<close>
  under the next id.
\<close>

theorem request_rejects_non_string_name:
  "(typeof (fst (snd (shiftOptions name0 args0))) \<noteq> TString
      \<longrightarrow> request E s name0 args0 = (Inl nameError, s))
   \<and> (port s \<longrightarrow>
        (\<exists>v mapped. fst (request E s (Str n) args) = Inr v
           \<and> sent (snd (request E s (Str n) args))
               = sent s @ [(Str n, Num (lastId s + 1), Arr mapped, Null)]))"
proof -
  have a: "typeof (fst (snd (shiftOptions name0 args0))) \<noteq> TString
      \<Longrightarrow> request E s name0 args0 = (Inl nameError, s)"
    by (simp add: request_def split_beta Let_def)
  obtain i s1 where n: "nextId s = (i, s1)" by (cases "nextId s")
  obtain a' b' c' where f: "snd (mapValues E s1 args) = s1\<lparr>cb2id := a', id2cb := b', randomDrawn := c'\<rparr>"
    using mapValues_frame by blast
  have b: "port s \<Longrightarrow> (\<exists>v mapped. fst (request E s (Str n) args) = Inr v
           \<and> sent (snd (request E s (Str n) args))
               = sent s @ [(Str n, Num (lastId s + 1), Arr mapped, Null)])"
    using n f
    by (auto simp: request_def shiftOptions_def split_beta Let_def nextId_def portSend_def
        newCapability_def)
  show ?thesis using a b by blast
qed

theorem request_rejects_non_string_name_witness:
  "typeof (fst (snd (shiftOptions (Num 5) [Str ''x'']))) \<noteq> TString
   \<and> request quietEnv newPort (Num 5) [Str ''x''] = (Inl nameError, newPort)
   \<and> typeof (fst (snd (shiftOptions Null []))) \<noteq> TString
   \<and> request quietEnv newPort Null [] = (Inl nameError, newPort)
   \<and> port newPort
   \<and> (\<exists>v mapped. fst (request quietEnv newPort (Str ''sum'') [Num 2, Num 3]) = Inr v
        \<and> sent (snd (request quietEnv newPort (Str ''sum'') [Num 2, Num 3]))
            = sent newPort @ [(Str ''sum'', Num (lastId newPort + 1), Arr mapped, Null)])"
proof -
  have a: "typeof (fst (snd (shiftOptions (Num 5) [Str ''x'']))) \<noteq> TString"
    by (simp add: shiftOptions_def)
  have b: "typeof (fst (snd (shiftOptions Null []))) \<noteq> TString"
    by (simp add: shiftOptions_def)
  have p: "port newPort" by (simp add: newPort_def)
  show ?thesis
    using a b p
      request_rejects_non_string_name [of "Num 5" "[Str ''x'']" quietEnv newPort "''sum''" "[Num 2, Num 3]"]
      request_rejects_non_string_name [of Null "[]" quietEnv newPort "''sum''" "[Num 2, Num 3]"]
    by blast
qed

text \<open>The claim as stated fails for the empty string: \<open>request('')\<close> on a new port
  throws nothing, hands \<open>('', 2, [], null)\<close> to the adapter and makes the entry for id 2.\<close>

theorem request_empty_name_counterexample:
  "request quietEnv newPort (Str []) []
     = (Inr (Prom 0),
        newPort\<lparr>lastId := 2, promises := [Pending], sent := [(Str [], Num 2, Arr [], Null)],
                requests := [(2, 0)]\<rparr>)"
  by (simp add: request_def shiftOptions_def nextId_def portSend_def newCapability_def
      quietEnv_def newPort_def Let_def)

section \<open>The release notice of the peer\<close>

text \<open>On any port, the control message with tag 2 only appends to the end queue.\<close>

lemma release_notice_is_queued:
  "onData E s (Str []) (Num 0) (Arr [a, Num 2, cbId]) altThis reply optional
     = (Inr False, s\<lparr>endQueue := endQueue s @ [(cbId, Undefined)]\<rparr>)"
  by (simp add: onData_def specialRequest_def nullish_def Let_def)

text \<open>
  Claim C1 says that the control message with tag 2 removes the binding of the callback id
  it carries. The code under \<open>case 2\<close> repeats the body of \<open>case 1\<close>: on a port where the
  function \<open>cb\<close> was sent under the id \<open>000\<close>, the message \<open>('', 0, [0, 2, '000'])\<close> puts
  \<open>['000', undefined]\<close> on the end queue, and both directions of the binding are still there.
\<close>

theorem onData_release_leaves_binding:
  "(let s1 = snd (mapValue quietEnv newPort (Fun (AppFn 0 ''cb'')));
        r = onData quietEnv s1 (Str []) (Num 0) (Arr [Num 0, Num 2, Str ''000'']) Undefined False False
    in id2cb s1 (Str ''000'') = Some (AppFn 0 ''cb'')
       \<and> cb2id s1 (AppFn 0 ''cb'') = Some (Str ''000'')
       \<and> r = (Inr False, s1\<lparr>endQueue := [(Str ''000'', Undefined)]\<rparr>)
       \<and> id2cb (snd r) (Str ''000'') = Some (AppFn 0 ''cb'')
       \<and> cb2id (snd r) (AppFn 0 ''cb'') = Some (Str ''000''))"
  by (simp add: mapValue_def newPort_def quietEnv_def getRandomId_def toStringRadix.simps
      digitChar_def onData_def specialRequest_def nullish_def Let_def)

section \<open>Batch registration\<close>

text \<open>A batch that throws registers nothing.\<close>

lemma addHandlers_all_or_nothing:
  "fst (addHandlers s prefix hs thisArg) = Inl e \<Longrightarrow> snd (addHandlers s prefix hs thisArg) = s"
  by (auto simp: addHandlers_def Let_def split: jsval.splits option.splits prod.splits if_splits)

text \<open>
  Claim C3 says that a batch is refused when a name it would register, prefix included, is
  taken. The code looks up the name without the prefix: with \<open>a.b\<close> registered,
  \<open>addHandlers('a.', {b: new})\<close> returns and replaces the handler of \<open>a.b\<close>; with only \<open>b\<close>
  registered, the same call throws the duplicate error although \<open>a.b\<close> is free.
\<close>

theorem addHandlers_ignores_prefix_in_check:
  "(let s0 = snd (addHandler newPort (Named (Str ''a.b'')) (Fun (AppFn 0 ''old'')) Undefined);
        r = addHandlers s0 (Str ''a.'') (Obj (Some ''Object'') [(''b'', Fun (AppFn 1 ''new''))]) Undefined;
        s1 = snd (addHandler newPort (Named (Str ''b'')) (Fun (AppFn 0 ''old'')) Undefined);
        r1 = addHandlers s1 (Str ''a.'') (Obj (Some ''Object'') [(''b'', Fun (AppFn 1 ''new''))]) Undefined
    in handlers s0 ''a.b'' = Some (AppFn 0 ''old'', Undefined)
       \<and> fst r = Inr Undefined
       \<and> handlers (snd r) ''a.b'' = Some (AppFn 1 ''new'', Undefined)
       \<and> handlers s1 ''a.b'' = None
       \<and> r1 = (Inl (newError ''Error'' (''Duplicate message handler for '' @ quoted ''b'')), s1))"
  by (simp add: addHandler_def addHandlers_def batchEntries_def newPort_def Let_def)

section \<open>Replies\<close>

text \<open>The wire form \<open>mapValue\<close> gives an error that carries a name, a message and a stack
  only.\<close>

definition errorWire :: "jsval \<Rightarrow> jsval" where
  "errorWire e =
     Obj (Some ''Object'')
       [([], Num 2), (''name'', Str (toStr (getProp e ''name''))),
        (''message'', Str (toStr (getProp e ''message''))),
        (''stack'', Str (toStr (getProp e ''stack''))),
        (''code'', Undefined), (''status'', Undefined), (''expose'', Undefined),
        (''fileName'', Undefined), (''lineNumber'', Undefined), (''columnNumber'', Undefined)]"

lemma mapValue_newError:
  "endsWith ''Error'' cls \<Longrightarrow> mapValue E s (newError cls msg) = (errorWire (newError cls msg), s)"
  by (simp add: mapValue_def newError_def errorWire_def errorLike_def numberOrString_def
      onlyOfType_def Let_def)

text \<open>A port with the requests 2 and 3 pending.\<close>

definition twoPending :: port_state where
  "twoPending = snd (request quietEnv (snd (request quietEnv newPort (Str ''first'') [])) (Str ''second'') [])"

lemma twoPending_eq:
  "twoPending = newPort\<lparr>lastId := 3, promises := [Pending, Pending],
      sent := [(Str ''first'', Num 2, Arr [], Null), (Str ''second'', Num 3, Arr [], Null)],
      requests := [(2, 0), (3, 1)]\<rparr>"
  by (simp add: twoPending_def request_def shiftOptions_def nextId_def portSend_def newCapability_def
      quietEnv_def newPort_def Let_def)

lemma unmapValue_frame_eq:
  "snd (unmapValue E s v) = s\<lparr>cb2id := cb2id (snd (unmapValue E s v)),
      id2cb := id2cb (snd (unmapValue E s v)), stubsMade := stubsMade (snd (unmapValue E s v))\<rparr>"
  by (cases v) (auto simp: unmapValue_def Let_def split: option.splits prod.splits)

lemma unmapValue_requests: "requests (snd (unmapValue E s v)) = requests s"
  by (subst unmapValue_frame_eq) simp

lemma unmapValue_promises: "promises (snd (unmapValue E s v)) = promises s"
  by (subst unmapValue_frame_eq) simp

text \<open>The reply branch for a numeric id, by the absolute value of the id.\<close>

lemma resolveReply_num:
  "resolveReply E s (Num n) args =
     (let s1 = s\<lparr>requests := AList.delete \<bar>n\<bar> (requests s)\<rparr> in
      case map_of (requests s) \<bar>n\<bar> of
        None \<Rightarrow> (False, s1\<lparr>reported := reported s1 @ [[newError ''Error'' ''Bad or duplicate response id'']]\<rparr>)
      | Some p \<Rightarrow>
          if nullish args then (False, s1\<lparr>reported := reported s1 @ [[readError args]]\<rparr>)
          else
            (case unmapValue E s1 (elemAt args 0) of
               (Inl e, s2) \<Rightarrow> (False, s2\<lparr>reported := reported s2 @ [[e]]\<rparr>)
             | (Inr v, s2) \<Rightarrow> (False, settle p (if n < 0 then Rejected v else Fulfilled v) s2)))"
  by (simp add: resolveReply_def lessZero_def negate_def Let_def abs_if split: option.splits)

lemma resolveReply_absent:
  assumes "map_of (requests s) \<bar>n\<bar> = None"
  shows "resolveReply E s (Num n) args
    = (False, s\<lparr>reported := reported s @ [[newError ''Error'' ''Bad or duplicate response id'']]\<rparr>)"
proof -
  have "\<bar>n\<bar> \<notin> fst ` set (requests s)"
    using assms by (simp add: map_of_eq_None_iff)
  then have "AList.delete \<bar>n\<bar> (requests s) = requests s" by simp
  then show ?thesis
    using assms by (simp add: resolveReply_num Let_def)
qed

lemma resolveReply_present:
  assumes "map_of (requests s) \<bar>n\<bar> = Some p" and "\<not> nullish args"
    and "unmapValue E (s\<lparr>requests := AList.delete \<bar>n\<bar> (requests s)\<rparr>) (elemAt args 0) = (Inr v, s2)"
  shows "resolveReply E s (Num n) args
    = (False, settle p (if n < 0 then Rejected v else Fulfilled v) s2)"
  using assms by (simp add: resolveReply_num Let_def)

lemma resolveReply_requests:
  "requests (snd (resolveReply E s (Num n) args)) = AList.delete \<bar>n\<bar> (requests s)"
proof -
  obtain r s2 where u: "unmapValue E (s\<lparr>requests := AList.delete \<bar>n\<bar> (requests s)\<rparr>) (elemAt args 0) = (r, s2)"
    by (cases "unmapValue E (s\<lparr>requests := AList.delete \<bar>n\<bar> (requests s)\<rparr>) (elemAt args 0)")
  have "requests s2 = AList.delete \<bar>n\<bar> (requests s)"
    using unmapValue_requests [of E "s\<lparr>requests := AList.delete \<bar>n\<bar> (requests s)\<rparr>" "elemAt args 0"] u
    by simp
  then show ?thesis
    using u by (cases r) (auto simp: resolveReply_num Let_def settle_def split: option.splits)
qed

lemma resolveReply_promises:
  assumes "map_of (requests s) \<bar>n\<bar> \<noteq> Some q"
  shows "promises (snd (resolveReply E s (Num n) args)) ! q = promises s ! q"
proof -
  obtain r s2 where u: "unmapValue E (s\<lparr>requests := AList.delete \<bar>n\<bar> (requests s)\<rparr>) (elemAt args 0) = (r, s2)"
    by (cases "unmapValue E (s\<lparr>requests := AList.delete \<bar>n\<bar> (requests s)\<rparr>) (elemAt args 0)")
  have "promises s2 = promises s"
    using unmapValue_promises [of E "s\<lparr>requests := AList.delete \<bar>n\<bar> (requests s)\<rparr>" "elemAt args 0"] u
    by simp
  then show ?thesis
    using u assms by (cases r) (auto simp: resolveReply_num Let_def settle_def split: option.splits)
qed

text \<open>
  What holds of every reply. For a message with the empty name and an id \<open>n\<close> other
  than 0, \<open>onData\<close> never throws. If the table has no entry for \<open>|n|\<close>, only a diagnostic
  is reported. If it has one and the first payload element decodes without a throw, the
  entry is removed and its promise is settled with the decoded value: fulfilled for
  \<open>n > 0\<close>, rejected for \<open>n < 0\<close>. In every case the entries under other ids stay, and so
  does every promise but the one of the entry for \<open>|n|\<close>.
\<close>

lemma reply_settles_its_own_request:
  assumes "n \<noteq> 0"
  shows "(\<exists>b. fst (onData E s (Str []) (Num n) args altThis reply optional) = Inr b)
    \<and> (map_of (requests s) \<bar>n\<bar> = None \<longrightarrow>
         onData E s (Str []) (Num n) args altThis reply optional
           = (Inr False, s\<lparr>reported := reported s @ [[newError ''Error'' ''Bad or duplicate response id'']]\<rparr>))
    \<and> (\<forall>p v s2. map_of (requests s) \<bar>n\<bar> = Some p \<and> \<not> nullish args
          \<and> unmapValue E (s\<lparr>requests := AList.delete \<bar>n\<bar> (requests s)\<rparr>) (elemAt args 0) = (Inr v, s2)
         \<longrightarrow> onData E s (Str []) (Num n) args altThis reply optional
               = (Inr False, settle p (if n < 0 then Rejected v else Fulfilled v) s2)
             \<and> requests s2 = AList.delete \<bar>n\<bar> (requests s) \<and> promises s2 = promises s)
    \<and> (\<forall>k. k \<noteq> \<bar>n\<bar> \<longrightarrow>
          map_of (requests (snd (onData E s (Str []) (Num n) args altThis reply optional))) k
            = map_of (requests s) k)
    \<and> (\<forall>q. map_of (requests s) \<bar>n\<bar> \<noteq> Some q \<longrightarrow>
          promises (snd (onData E s (Str []) (Num n) args altThis reply optional)) ! q = promises s ! q)"
proof -
  have od: "onData E s (Str []) (Num n) args altThis reply optional
      = (Inr (fst (resolveReply E s (Num n) args)), snd (resolveReply E s (Num n) args))"
    using assms by (simp add: onData_def split_beta)
  have 1: "\<exists>b. fst (onData E s (Str []) (Num n) args altThis reply optional) = Inr b"
    by (simp add: od)
  have 2: "map_of (requests s) \<bar>n\<bar> = None \<longrightarrow>
         onData E s (Str []) (Num n) args altThis reply optional
           = (Inr False, s\<lparr>reported := reported s @ [[newError ''Error'' ''Bad or duplicate response id'']]\<rparr>)"
    by (simp add: od resolveReply_absent)
  have 3: "\<forall>p v s2. map_of (requests s) \<bar>n\<bar> = Some p \<and> \<not> nullish args
          \<and> unmapValue E (s\<lparr>requests := AList.delete \<bar>n\<bar> (requests s)\<rparr>) (elemAt args 0) = (Inr v, s2)
         \<longrightarrow> onData E s (Str []) (Num n) args altThis reply optional
               = (Inr False, settle p (if n < 0 then Rejected v else Fulfilled v) s2)
             \<and> requests s2 = AList.delete \<bar>n\<bar> (requests s) \<and> promises s2 = promises s"
  proof (intro allI impI, elim conjE)
    fix p v s2
    assume a: "map_of (requests s) \<bar>n\<bar> = Some p" "\<not> nullish args"
      "unmapValue E (s\<lparr>requests := AList.delete \<bar>n\<bar> (requests s)\<rparr>) (elemAt args 0) = (Inr v, s2)"
    have r: "requests s2 = AList.delete \<bar>n\<bar> (requests s)"
      using unmapValue_requests [of E "s\<lparr>requests := AList.delete \<bar>n\<bar> (requests s)\<rparr>" "elemAt args 0"] a(3)
      by simp
    have q: "promises s2 = promises s"
      using unmapValue_promises [of E "s\<lparr>requests := AList.delete \<bar>n\<bar> (requests s)\<rparr>" "elemAt args 0"] a(3)
      by simp
    show "onData E s (Str []) (Num n) args altThis reply optional
               = (Inr False, settle p (if n < 0 then Rejected v else Fulfilled v) s2)
             \<and> requests s2 = AList.delete \<bar>n\<bar> (requests s) \<and> promises s2 = promises s"
      using resolveReply_present [OF a] r q by (simp add: od)
  qed
  have 4: "\<forall>k. k \<noteq> \<bar>n\<bar> \<longrightarrow>
          map_of (requests (snd (onData E s (Str []) (Num n) args altThis reply optional))) k
            = map_of (requests s) k"
    by (simp add: od resolveReply_requests)
  have 5: "\<forall>q. map_of (requests s) \<bar>n\<bar> \<noteq> Some q \<longrightarrow>
          promises (snd (onData E s (Str []) (Num n) args altThis reply optional)) ! q = promises s ! q"
    by (simp add: od resolveReply_promises)
  show ?thesis using 1 2 3 4 5 by blast
qed

text \<open>Replies that arrive out of order, and one that matches no entry.\<close>

lemma replies_out_of_order:
  "(3::int) \<noteq> 0 \<and> (- 2::int) \<noteq> 0
   \<and> map_of (requests twoPending) \<bar>3\<bar> = Some 1
   \<and> onData quietEnv twoPending (Str []) (Num 3) (Arr [Str ''three'']) Undefined False False
       = (Inr False, twoPending\<lparr>requests := [(2, 0)], promises := [Pending, Fulfilled (Str ''three'')]\<rparr>)
   \<and> onData quietEnv (twoPending\<lparr>requests := [(2, 0)], promises := [Pending, Fulfilled (Str ''three'')]\<rparr>)
          (Str []) (Num (- 2)) (Arr [Str ''two'']) Undefined False False
       = (Inr False, twoPending\<lparr>requests := [], promises := [Rejected (Str ''two''), Fulfilled (Str ''three'')]\<rparr>)
   \<and> map_of (requests twoPending) \<bar>9\<bar> = None
   \<and> onData quietEnv twoPending (Str []) (Num 9) (Arr [Str ''nine'']) Undefined False False
       = (Inr False, twoPending\<lparr>reported := [[newError ''Error'' ''Bad or duplicate response id'']]\<rparr>)"
proof -
  let ?mid = "twoPending\<lparr>requests := [(2, 0)], promises := [Pending, Fulfilled (Str ''three'')]\<rparr>"
  have n3: "(3::int) \<noteq> 0" and n2: "(- 2::int) \<noteq> 0" and n9: "(9::int) \<noteq> 0" by simp_all
  have m3: "map_of (requests twoPending) \<bar>3\<bar> = Some 1" by (simp add: twoPending_eq)
  have m2: "map_of (requests ?mid) \<bar>- 2\<bar> = Some 0" by simp
  have m9: "map_of (requests twoPending) \<bar>9\<bar> = None" by (simp add: twoPending_eq)
  have a3: "\<not> nullish (Arr [Str ''three''])" and a2: "\<not> nullish (Arr [Str ''two''])"
    by (simp_all add: nullish_def)
  have u3: "unmapValue quietEnv (twoPending\<lparr>requests := AList.delete \<bar>3\<bar> (requests twoPending)\<rparr>)
      (elemAt (Arr [Str ''three'']) 0) = (Inr (Str ''three''), twoPending\<lparr>requests := [(2, 0)]\<rparr>)"
    by (simp add: twoPending_eq unmapValue_def AList.delete_eq)
  have u2: "unmapValue quietEnv (?mid\<lparr>requests := AList.delete \<bar>- 2\<bar> (requests ?mid)\<rparr>)
      (elemAt (Arr [Str ''two'']) 0) = (Inr (Str ''two''), ?mid\<lparr>requests := []\<rparr>)"
    by (simp add: unmapValue_def AList.delete_eq)
  have r3: "onData quietEnv twoPending (Str []) (Num 3) (Arr [Str ''three'']) Undefined False False
      = (Inr False, settle 1 (if (3::int) < 0 then Rejected (Str ''three'') else Fulfilled (Str ''three''))
           (twoPending\<lparr>requests := [(2, 0)]\<rparr>))"
    using reply_settles_its_own_request [OF n3, where s = twoPending and E = quietEnv
        and args = "Arr [Str ''three'']" and altThis = Undefined and reply = False and optional = False]
      m3 a3 u3 by blast
  have r2: "onData quietEnv ?mid (Str []) (Num (- 2)) (Arr [Str ''two'']) Undefined False False
      = (Inr False, settle 0 (if (- 2::int) < 0 then Rejected (Str ''two'') else Fulfilled (Str ''two''))
           (?mid\<lparr>requests := []\<rparr>))"
    using reply_settles_its_own_request [OF n2, where s = ?mid and E = quietEnv
        and args = "Arr [Str ''two'']" and altThis = Undefined and reply = False and optional = False]
      m2 a2 u2 by blast
  have r9: "onData quietEnv twoPending (Str []) (Num 9) (Arr [Str ''nine'']) Undefined False False
       = (Inr False, twoPending\<lparr>reported := reported twoPending @ [[newError ''Error'' ''Bad or duplicate response id'']]\<rparr>)"
    using reply_settles_its_own_request [OF n9, where s = twoPending and E = quietEnv
        and args = "Arr [Str ''nine'']" and altThis = Undefined and reply = False and optional = False]
      m9 by blast
  have s3: "settle 1 (if (3::int) < 0 then Rejected (Str ''three'') else Fulfilled (Str ''three''))
           (twoPending\<lparr>requests := [(2, 0)]\<rparr>) = ?mid"
    by (simp add: settle_def twoPending_eq)
  have s2: "settle 0 (if (- 2::int) < 0 then Rejected (Str ''two'') else Fulfilled (Str ''two''))
           (?mid\<lparr>requests := []\<rparr>)
      = twoPending\<lparr>requests := [], promises := [Rejected (Str ''two''), Fulfilled (Str ''three'')]\<rparr>"
    by (simp add: settle_def)
  have s9: "reported twoPending = []" by (simp add: twoPending_eq newPort_def)
  show ?thesis
    using n3 n2 m3 m9 r3 r2 r9 s3 s2 s9 by simp
qed

text \<open>When the first payload element does not decode, the entry is removed all the same,
  the thrown value is only reported, and no promise is settled.\<close>

lemma reply_undecodable_is_dropped:
  assumes "n \<noteq> 0" and "map_of (requests s) \<bar>n\<bar> = Some p" and "\<not> nullish args"
    and "unmapValue E (s\<lparr>requests := AList.delete \<bar>n\<bar> (requests s)\<rparr>) (elemAt args 0) = (Inl e, s2)"
  shows "onData E s (Str []) (Num n) args altThis reply optional
      = (Inr False, s2\<lparr>reported := reported s2 @ [[e]]\<rparr>)
    \<and> requests s2 = AList.delete \<bar>n\<bar> (requests s) \<and> promises s2 = promises s"
proof -
  have od: "onData E s (Str []) (Num n) args altThis reply optional
      = (Inr (fst (resolveReply E s (Num n) args)), snd (resolveReply E s (Num n) args))"
    using assms(1) by (simp add: onData_def split_beta)
  have r: "requests s2 = AList.delete \<bar>n\<bar> (requests s)"
    using unmapValue_requests [of E "s\<lparr>requests := AList.delete \<bar>n\<bar> (requests s)\<rparr>" "elemAt args 0"]
      assms(4) by simp
  have q: "promises s2 = promises s"
    using unmapValue_promises [of E "s\<lparr>requests := AList.delete \<bar>n\<bar> (requests s)\<rparr>" "elemAt args 0"]
      assms(4) by simp
  show ?thesis
    using assms(2-4) r q by (simp add: od resolveReply_num Let_def)
qed

text \<open>A payload with a tag the mapper does not know: the entry for id 2 is removed, its
  promise stays pending, and the TypeError of \<open>unmapValue\<close> is reported.\<close>

lemma reply_unknown_tag_hangs:
  "requests twoPending = [(2, 0), (3, 1)] \<and> promises twoPending = [Pending, Pending]
   \<and> onData quietEnv twoPending (Str []) (Num 2) (Arr [Obj (Some ''Object'') [([], Num 7)]]) Undefined False False
       = (Inr False, twoPending\<lparr>requests := [(3, 1)],
            reported := [[newError ''TypeError'' ''Can't unmap argument'']]\<rparr>)
   \<and> promises (snd (onData quietEnv twoPending (Str []) (Num 2) (Arr [Obj (Some ''Object'') [([], Num 7)]])
          Undefined False False)) ! 0 = Pending"
  by (simp add: twoPending_eq onData_def resolveReply_def lessZero_def nullish_def unmapValue_def
      newPort_def Let_def)

text \<open>The error a rejected \<open>Promise.any\<close> gives.\<close>

definition allRejected :: jsval where
  "allRejected = newError ''AggregateError'' ''All promises were rejected''"

text \<open>
  Claim C6 says that a reply whose id matches a pending entry settles that entry with the
  decoded payload. The code removes the entry first and decodes after; when the decoding
  throws, the \<open>catch\<close> only reports, and the promise is never settled. A peer whose handler
  fails with an AggregateError answers request 2 with \<open>('', -2, [wire])\<close>, where \<open>wire\<close> is
  what its \<open>mapValue\<close> makes of the error. On the port that waits for the replies 2 and 3,
  \<open>unmapValue\<close> finds the function \<open>AggregateError\<close> in \<open>globalThis\<close> and constructs it
  without arguments, which throws a TypeError: the entry of request 2 is gone, the TypeError
  is reported, and the promise of request 2 is pending for good, where the documentation of
  \<open>request\<close> promises a rejection when the handler threw.
\<close>

theorem reply_unconstructible_error_hangs:
  "mapValue quietEnv newPort allRejected = (errorWire allRejected, newPort)
   \<and> requests twoPending = [(2, 0), (3, 1)] \<and> promises twoPending = [Pending, Pending]
   \<and> onData quietEnv twoPending (Str []) (Num (- 2)) (Arr [errorWire allRejected]) Undefined False False
       = (Inr False, twoPending\<lparr>requests := [(3, 1)],
            reported := [[newError ''TypeError'' ''undefined is not iterable'']]\<rparr>)
   \<and> promises (snd (onData quietEnv twoPending (Str []) (Num (- 2)) (Arr [errorWire allRejected])
          Undefined False False)) ! 0 = Pending"
proof -
  have a: "mapValue quietEnv newPort allRejected = (errorWire allRejected, newPort)"
    by (simp add: allRejected_def mapValue_newError endsWith_def)
  have u: "unmapValue quietEnv (twoPending\<lparr>requests := [(3, 1)]\<rparr>) (errorWire allRejected)
      = (Inl (newError ''TypeError'' ''undefined is not iterable''), twoPending\<lparr>requests := [(3, 1)]\<rparr>)"
    by (simp add: unmapValue_def errorWire_def allRejected_def newError_def quietEnv_def Let_def)
  have r: "reported newPort = []" by (simp add: newPort_def)
  have b: "onData quietEnv twoPending (Str []) (Num (- 2)) (Arr [errorWire allRejected]) Undefined False False
       = (Inr False, twoPending\<lparr>requests := [(3, 1)],
            reported := [[newError ''TypeError'' ''undefined is not iterable'']]\<rparr>)"
    using u r by (simp add: twoPending_eq onData_def resolveReply_num nullish_def Let_def AList.delete_eq)
  show ?thesis
    using a b by (simp add: twoPending_eq)
qed

section \<open>Requests without a handler\<close>

text \<open>The error thrown when no handler is found.\<close>

definition noHandlerError :: "jsval \<Rightarrow> jsval" where
  "noHandlerError name = newError ''Error'' (''No such handler '' @ quoted (toStr name))"

lemma unmapValues_frame_eq:
  "snd (unmapValues E s vs) = s\<lparr>cb2id := cb2id (snd (unmapValues E s vs)),
      id2cb := id2cb (snd (unmapValues E s vs)), stubsMade := stubsMade (snd (unmapValues E s vs))\<rparr>"
proof (induction vs arbitrary: s)
  case Nil
  then show ?case by simp
next
  case (Cons v vs)
  obtain r s1 where u: "unmapValue E s v = (r, s1)" by (cases "unmapValue E s v")
  have 1: "s1 = s\<lparr>cb2id := cb2id s1, id2cb := id2cb s1, stubsMade := stubsMade s1\<rparr>"
    using unmapValue_frame_eq [of E s v] u by simp
  obtain r2 s2 where u2: "unmapValues E s1 vs = (r2, s2)" by (cases "unmapValues E s1 vs")
  have 2: "s2 = s1\<lparr>cb2id := cb2id s2, id2cb := id2cb s2, stubsMade := stubsMade s2\<rparr>"
    using Cons.IH [of s1] u2 by simp
  have 3: "s2 = s\<lparr>cb2id := cb2id s2, id2cb := id2cb s2, stubsMade := stubsMade s2\<rparr>"
    by (subst 2, subst 1) simp
  show ?case
    using u u2 1 3 by (cases r; cases r2) auto
qed

lemma unmapArgs_frame_eq:
  "snd (unmapArgs E s args) = s\<lparr>cb2id := cb2id (snd (unmapArgs E s args)),
      id2cb := id2cb (snd (unmapArgs E s args)), stubsMade := stubsMade (snd (unmapArgs E s args))\<rparr>"
  using unmapValues_frame_eq by (cases args) (auto simp: unmapArgs_def)

lemma unmapArgs_frame:
  assumes "unmapArgs E s args = (r, s1)"
  shows "s1 = s\<lparr>cb2id := cb2id s1, id2cb := id2cb s1, stubsMade := stubsMade s1\<rparr>"
  using unmapArgs_frame_eq [of E s args] assms by simp

text \<open>No wildcard handler is found exactly when no registered expression matches.\<close>

lemma wildcardHandler_none:
  "wildcardHandler E s name = None \<longleftrightarrow> (\<forall>(r, pair) \<in> set (wildcards s). \<not> rxTest E r (toStr name))"
proof -
  have "filter (\<lambda>(r, pair). rxTest E r (toStr name)) (wildcards s) = []
      \<longleftrightarrow> (\<forall>(r, pair) \<in> set (wildcards s). \<not> rxTest E r (toStr name))"
    by (auto simp: filter_empty_conv)
  then show ?thesis
    by (auto simp: wildcardHandler_def split: list.splits)
qed

text \<open>
  Claim C9, as the code has it. Take a request with a non-empty name that has no exact
  handler and matches no wildcard, and whose arguments all decode without a throw (the
  decoding comes first and leaves the port as \<open>s1\<close>). With the optional flag, \<open>onData\<close>
  returns false and nothing is sent, replied or reported. Without it and with an id \<open>n\<close>
  other than 0, the error \<open>No such handler\<close> goes out under the id \<open>-n\<close>, through the
  reply function if there is one and else, on a port that is not destroyed, through the
  adapter's \<open>send\<close>; \<open>onData\<close> returns false and throws nothing.
\<close>

theorem unhandled_request:
  assumes "nm \<noteq> []" and "exactHandler s (Str nm) = None" and "wildcardHandler E s (Str nm) = None"
    and "unmapArgs E s args = (Inr as, s1)"
  shows "(optional \<longrightarrow>
            onData E s (Str nm) i args altThis reply optional = (Inr False, s1)
            \<and> sent s1 = sent s \<and> replied s1 = replied s \<and> reported s1 = reported s)
    \<and> (\<not> optional \<and> n \<noteq> 0 \<and> reply \<longrightarrow>
          onData E s (Str nm) (Num n) args altThis reply optional
            = (Inr False,
               s1\<lparr>replied := replied s @ [(Str [], Num (- n), Arr [errorWire (noHandlerError (Str nm))])]\<rparr>))
    \<and> (\<not> optional \<and> n \<noteq> 0 \<and> \<not> reply \<and> port s \<longrightarrow>
          onData E s (Str nm) (Num n) args altThis reply optional
            = (Inr False,
               s1\<lparr>sent := sent s @ [(Str [], Num (- n), Arr [errorWire (noHandlerError (Str nm))], Undefined)]\<rparr>))"
proof -
  have f: "s1 = s\<lparr>cb2id := cb2id s1, id2cb := id2cb s1, stubsMade := stubsMade s1\<rparr>"
    using assms(4) by (rule unmapArgs_frame)
  have h: "exactHandler s1 (Str nm) = None"
    using assms(2) by (subst f) (simp add: exactHandler_def)
  have w: "wildcardHandler E s1 (Str nm) = None"
    using assms(3) by (subst f) (simp add: wildcardHandler_def)
  have fr: "sent s1 = sent s" "replied s1 = replied s" "reported s1 = reported s" "port s1 = port s"
    by (subst f, simp)+
  have nr: "\<And>j opt. namedRequest E s (Str nm) j args altThis opt
      = (if opt then (Done False, s1) else (Thrown (noHandlerError (Str nm)), s1))"
    using assms(4) h w by (simp add: namedRequest_def noHandlerError_def)
  have e: "mapValue E s1 (noHandlerError (Str nm)) = (errorWire (noHandlerError (Str nm)), s1)"
    unfolding noHandlerError_def by (rule mapValue_newError) (simp add: endsWith_def)
  have 1: "optional \<Longrightarrow> onData E s (Str nm) i args altThis reply optional = (Inr False, s1)"
    using assms(1) by (simp add: onData_def nr)
  have 2: "\<not> optional \<Longrightarrow> n \<noteq> 0 \<Longrightarrow> reply \<Longrightarrow>
      onData E s (Str nm) (Num n) args altThis reply optional
        = (Inr False,
           s1\<lparr>replied := replied s @ [(Str [], Num (- n), Arr [errorWire (noHandlerError (Str nm))])]\<rparr>)"
    using assms(1) fr by (simp add: onData_def nr catchRequest_def e sendReply_def negate_def)
  have 3: "\<not> optional \<Longrightarrow> n \<noteq> 0 \<Longrightarrow> \<not> reply \<Longrightarrow> port s \<Longrightarrow>
      onData E s (Str nm) (Num n) args altThis reply optional
        = (Inr False,
           s1\<lparr>sent := sent s @ [(Str [], Num (- n), Arr [errorWire (noHandlerError (Str nm))], Undefined)]\<rparr>)"
    using assms(1) fr by (simp add: onData_def nr catchRequest_def e sendReply_def portSend_def negate_def)
  show ?thesis using 1 2 3 fr by blast
qed

theorem unhandled_request_witness:
  "''missing'' \<noteq> [] \<and> exactHandler newPort (Str ''missing'') = None
   \<and> wildcardHandler quietEnv newPort (Str ''missing'') = None
   \<and> unmapArgs quietEnv newPort (Arr [Num 1]) = (Inr [Num 1], newPort)
   \<and> port newPort
   \<and> onData quietEnv newPort (Str ''missing'') (Num 5) (Arr [Num 1]) Undefined False False
       = (Inr False,
          newPort\<lparr>sent := [(Str [], Num (- 5), Arr [errorWire (noHandlerError (Str ''missing''))], Undefined)]\<rparr>)
   \<and> onData quietEnv newPort (Str ''missing'') (Num 5) (Arr [Num 1]) Undefined True False
       = (Inr False,
          newPort\<lparr>replied := [(Str [], Num (- 5), Arr [errorWire (noHandlerError (Str ''missing''))])]\<rparr>)
   \<and> onData quietEnv newPort (Str ''missing'') (Num 5) (Arr [Num 1]) Undefined False True
       = (Inr False, newPort)"
proof -
  have a: "''missing'' \<noteq> []" by simp
  have b: "exactHandler newPort (Str ''missing'') = None"
    by (simp add: exactHandler_def newPort_def)
  have c: "wildcardHandler quietEnv newPort (Str ''missing'') = None"
    by (simp add: wildcardHandler_def newPort_def)
  have d: "unmapArgs quietEnv newPort (Arr [Num 1]) = (Inr [Num 1], newPort)"
    by (simp add: unmapArgs_def unmapValue_def)
  have p: "port newPort" "sent newPort = []" "replied newPort = []" by (simp_all add: newPort_def)
  have n: "(5::int) \<noteq> 0" by simp
  show ?thesis
    using a b c d p n
      unhandled_request [OF a b c d, where optional = False and n = 5 and reply = False and altThis = Undefined]
      unhandled_request [OF a b c d, where optional = False and n = 5 and reply = True and altThis = Undefined]
      unhandled_request [OF a b c d, where optional = True and i = "Num 5" and reply = False and altThis = Undefined]
    by simp
qed

text \<open>The claim as stated fails when an argument does not decode: the optional flag is
  set and no handler exists, yet an error reply (the TypeError of \<open>unmapValue\<close>) is sent.
  It fails on a destroyed port as well: \<open>this.port\<close> is null, and the TypeError of the send
  in the \<open>catch\<close> reaches the caller of \<open>onData\<close>.\<close>

theorem optional_undecodable_counterexample:
  "exactHandler newPort (Str ''missing'') = None
   \<and> wildcardHandler quietEnv newPort (Str ''missing'') = None
   \<and> onData quietEnv newPort (Str ''missing'') (Num 5) (Arr [Obj (Some ''Object'') [([], Num 7)]])
        Undefined False True
       = (Inr False,
          newPort\<lparr>sent := [(Str [], Num (- 5),
                       Arr [errorWire (newError ''TypeError'' ''Can't unmap argument'')], Undefined)]\<rparr>)
   \<and> onData quietEnv destroyedPort (Str ''missing'') (Num 5) (Arr []) Undefined False False
       = (Inl (readError Null), destroyedPort)"
proof -
  have dead: "onData quietEnv destroyedPort (Str ''missing'') (Num 5) (Arr []) Undefined False False
       = (Inl (readError Null), destroyedPort)"
  proof -
    have u: "unmapArgs quietEnv destroyedPort (Arr []) = (Inr [], destroyedPort)"
      by (simp add: unmapArgs_def)
    have h: "exactHandler destroyedPort (Str ''missing'') = None"
      "wildcardHandler quietEnv destroyedPort (Str ''missing'') = None"
      by (simp_all add: exactHandler_def wildcardHandler_def destroyedPort_def newPort_def)
    have p: "\<not> port destroyedPort" by (simp add: destroyedPort_def)
    show ?thesis
      using p by (simp add: onData_def namedRequest_def u h catchRequest_def mapValue_newError
          endsWith_def sendReply_def portSend_def)
  qed
  have u: "unmapArgs quietEnv newPort (Arr [Obj (Some ''Object'') [([], Num 7)]])
      = (Inl (newError ''TypeError'' ''Can't unmap argument''), newPort)"
    by (simp add: unmapArgs_def unmapValue_def Let_def)
  have e: "mapValue quietEnv newPort (newError ''TypeError'' ''Can't unmap argument'')
      = (errorWire (newError ''TypeError'' ''Can't unmap argument''), newPort)"
    by (rule mapValue_newError) (simp add: endsWith_def)
  have p: "port newPort" "sent newPort = []" by (simp_all add: newPort_def)
  have "onData quietEnv newPort (Str ''missing'') (Num 5) (Arr [Obj (Some ''Object'') [([], Num 7)]])
        Undefined False True
       = (Inr False,
          newPort\<lparr>sent := [(Str [], Num (- 5),
                       Arr [errorWire (newError ''TypeError'' ''Can't unmap argument'')], Undefined)]\<rparr>)"
    using p by (simp add: onData_def namedRequest_def u catchRequest_def e sendReply_def portSend_def
        negate_def)
  moreover have "exactHandler newPort (Str ''missing'') = None"
    by (simp add: exactHandler_def newPort_def)
  moreover have "wildcardHandler quietEnv newPort (Str ''missing'') = None"
    by (simp add: wildcardHandler_def newPort_def)
  ultimately show ?thesis using dead by simp
qed

section \<open>What every operation keeps\<close>

text \<open>
  Three relations between the port before and after an operation. A well-formed port has
  each entry of the request table under an id no greater than \<open>lastId\<close>, with a pending
  promise of its own. \<open>lifecycle\<close> ties the two references and the adapter: an open port has
  its adapter, not yet destroyed; a destroyed port has dropped it, after one \<open>destroy\<close>.
  \<open>grows s s'\<close>: the port may have taken new ids and registered new requests, but every entry
  and every promise of \<open>s\<close> is still there as it was. \<open>steady\<close> is the weaker relation that
  the reply branch keeps as well.
\<close>

definition wellFormed :: "port_state \<Rightarrow> bool" where
  "wellFormed s =
     (distinct (map snd (requests s))
      \<and> (\<forall>e \<in> set (requests s).
            fst e \<le> lastId s \<and> snd e < length (promises s) \<and> promises s ! snd e = Pending))"

definition lifecycle :: "port_state \<Rightarrow> bool" where
  "lifecycle s =
     (if public s then port s \<and> adapterDestroyed s = 0 else \<not> port s \<and> adapterDestroyed s = 1)"

definition grows :: "port_state \<Rightarrow> port_state \<Rightarrow> bool" where
  "grows s s' =
     (public s' = public s \<and> port s' = port s \<and> adapterDestroyed s' = adapterDestroyed s
      \<and> lastId s \<le> lastId s'
      \<and> (\<forall>e \<in> set (requests s). fst e \<le> lastId s \<longrightarrow> e \<in> set (requests s'))
      \<and> (\<exists>ps. promises s' = promises s @ ps)
      \<and> (wellFormed s \<longrightarrow> wellFormed s'))"

definition steady :: "port_state \<Rightarrow> port_state \<Rightarrow> bool" where
  "steady s s' =
     (public s' = public s \<and> port s' = port s \<and> adapterDestroyed s' = adapterDestroyed s
      \<and> (wellFormed s \<longrightarrow> wellFormed s'))"

definition consistent :: "port_state \<Rightarrow> bool" where
  "consistent s = (lifecycle s \<and> wellFormed s)"

text \<open>A port with three requests pending.\<close>

definition threePending :: port_state where
  "threePending =
     run quietEnv newPort
       [CallRequest (Str ''a'') Undefined Undefined, CallRequest (Str ''b'') Undefined Undefined,
        CallRequest (Str ''c'') Undefined Undefined]"

lemma grows_refl: "grows s s"
  by (simp add: grows_def)

lemma grows_trans:
  assumes "grows s t" and "grows t u"
  shows "grows s u"
proof -
  obtain ps where ps: "promises t = promises s @ ps" using assms(1) by (auto simp: grows_def)
  obtain qs where qs: "promises u = promises t @ qs" using assms(2) by (auto simp: grows_def)
  have p: "\<exists>rs. promises u = promises s @ rs" using ps qs by simp
  have e: "\<forall>e \<in> set (requests s). fst e \<le> lastId s \<longrightarrow> e \<in> set (requests u)"
  proof (intro ballI impI)
    fix e assume a: "e \<in> set (requests s)" "fst e \<le> lastId s"
    then have "e \<in> set (requests t)" using assms(1) by (auto simp: grows_def)
    moreover have "fst e \<le> lastId t" using a(2) assms(1) by (auto simp: grows_def)
    ultimately show "e \<in> set (requests u)" using assms(2) by (auto simp: grows_def)
  qed
  show ?thesis
    using assms p e unfolding grows_def by auto
qed

lemma grows_keep:
  assumes "public s' = public s" "port s' = port s" "adapterDestroyed s' = adapterDestroyed s"
    "lastId s \<le> lastId s'" "requests s' = requests s" "promises s' = promises s"
  shows "grows s s'"
  using assms by (auto simp: grows_def wellFormed_def)

lemma update_fresh: "k \<notin> fst ` set al \<Longrightarrow> AList.update k v al = al @ [(k, v)]"
  by (induction al) auto

lemma update_keeps: "e \<in> set al \<Longrightarrow> fst e \<noteq> k \<Longrightarrow> e \<in> set (AList.update k v al)"
  by (induction al) auto

lemma grows_register:
  assumes "public s' = public s" "port s' = port s" "adapterDestroyed s' = adapterDestroyed s"
    "lastId s < lastId s'" "promises s' = promises s @ [Pending]"
    "requests s' = AList.update (lastId s') (length (promises s)) (requests s)"
  shows "grows s s'"
proof -
  have e: "\<forall>e \<in> set (requests s). fst e \<le> lastId s \<longrightarrow> e \<in> set (requests s')"
  proof (intro ballI impI)
    fix e assume a: "e \<in> set (requests s)" "fst e \<le> lastId s"
    then have "fst e \<noteq> lastId s'" using assms(4) by simp
    with a(1) have "e \<in> set (AList.update (lastId s') (length (promises s)) (requests s))"
      by (rule update_keeps)
    then show "e \<in> set (requests s')" using assms(6) by simp
  qed
  have w: "wellFormed s \<longrightarrow> wellFormed s'"
  proof
    assume wf: "wellFormed s"
    then have "lastId s' \<notin> fst ` set (requests s)"
      using assms(4) by (force simp: wellFormed_def)
    then have r: "requests s' = requests s @ [(lastId s', length (promises s))]"
      using assms(6) by (simp add: update_fresh)
    show "wellFormed s'"
      using wf assms(4) unfolding wellFormed_def r assms(5)
      by (auto simp: nth_append)
  qed
  show ?thesis
    using assms e w unfolding grows_def by auto
qed

lemma grows_update [simp]:
  "grows s (s'\<lparr>handlers := a\<rparr>) = grows s s'"
  "grows s (s'\<lparr>wildcards := b\<rparr>) = grows s s'"
  "grows s (s'\<lparr>cb2id := c\<rparr>) = grows s s'"
  "grows s (s'\<lparr>id2cb := d\<rparr>) = grows s s'"
  "grows s (s'\<lparr>endQueue := e\<rparr>) = grows s s'"
  "grows s (s'\<lparr>ended := f\<rparr>) = grows s s'"
  "grows s (s'\<lparr>isRequestFlag := g\<rparr>) = grows s s'"
  "grows s (s'\<lparr>sent := h\<rparr>) = grows s s'"
  "grows s (s'\<lparr>replied := i\<rparr>) = grows s s'"
  "grows s (s'\<lparr>reported := j\<rparr>) = grows s s'"
  "grows s (s'\<lparr>attached := k\<rparr>) = grows s s'"
  "grows s (s'\<lparr>stubsMade := l\<rparr>) = grows s s'"
  "grows s (s'\<lparr>randomDrawn := m\<rparr>) = grows s s'"
  by (simp_all add: grows_def wellFormed_def)

lemma grows_from_update [simp]:
  "grows (s\<lparr>isRequestFlag := g\<rparr>) s' = grows s s'"
  by (simp add: grows_def wellFormed_def)

lemma mapValue_grows: "grows s (snd (mapValue E s v))"
  by (subst mapValue_frame_eq) (simp add: grows_refl)

lemma mapValues_grows: "grows s (snd (mapValues E s vs))"
proof -
  obtain a b c where "snd (mapValues E s vs) = s\<lparr>cb2id := a, id2cb := b, randomDrawn := c\<rparr>"
    using mapValues_frame by blast
  then show ?thesis by (simp add: grows_refl)
qed

lemma unmapValue_grows: "grows s (snd (unmapValue E s v))"
  by (subst unmapValue_frame_eq) (simp add: grows_refl)

lemma unmapArgs_grows: "grows s (snd (unmapArgs E s args))"
  by (subst unmapArgs_frame_eq) (simp add: grows_refl)

lemma portSend_grows: "grows s (snd (portSend E s name i args options))"
  by (simp add: portSend_def grows_refl)

lemma portSend_live: "port s \<Longrightarrow> \<exists>v. fst (portSend E s name i args options) = Inr v"
  by (simp add: portSend_def)

lemma sendReply_grows: "grows s (snd (sendReply E s reply i payload))"
  by (simp add: sendReply_def portSend_grows grows_refl)

lemma sendReply_live: "port s \<Longrightarrow> \<exists>v. fst (sendReply E s reply i payload) = Inr v"
  by (simp add: sendReply_def portSend_def)

lemma callStub_grows: "grows s (snd (callStub E s cbId args))"
proof (cases "public s")
  case False
  then show ?thesis by (simp add: callStub_def grows_refl)
next
  case True
  let ?s1 = "s\<lparr>lastId := lastId s + 1\<rparr>"
  obtain mapped s2 where m: "mapValues E ?s1 args = (mapped, s2)" by (cases "mapValues E ?s1 args")
  obtain a b c where f: "s2 = ?s1\<lparr>cb2id := a, id2cb := b, randomDrawn := c\<rparr>"
    using mapValues_frame [of E ?s1 args] m by auto
  show ?thesis
  proof (cases "port s")
    case False
    then have "snd (callStub E s cbId args) = s2"
      using True m f by (simp add: callStub_def nextId_def portSend_def)
    moreover have "grows s s2"
      unfolding f by (simp, rule grows_keep) simp_all
    ultimately show ?thesis by simp
  next
    case live: True
    let ?m = "(Str [], Num 0, Arr [Num (lastId s + 1), Num 0, cbId, Arr mapped], Null)"
    let ?v = "adapterSend E (Str []) (Num 0) (Arr [Num (lastId s + 1), Num 0, cbId, Arr mapped]) Null"
    show ?thesis
    proof (cases "?v \<noteq> Undefined")
      case True
      then have "snd (callStub E s cbId args) = s2\<lparr>sent := sent s2 @ [?m]\<rparr>"
        using \<open>public s\<close> live m f by (simp add: callStub_def nextId_def portSend_def)
      moreover have "grows s s2"
        unfolding f by (simp, rule grows_keep) simp_all
      ultimately show ?thesis by simp
    next
      case False
      then have r: "snd (callStub E s cbId args)
          = s2\<lparr>sent := sent s2 @ [?m], promises := promises s2 @ [Pending],
               requests := AList.update (lastId s + 1) (length (promises s2)) (requests s2)\<rparr>"
        using \<open>public s\<close> live m f
        by (simp add: callStub_def nextId_def portSend_def newCapability_def)
      show ?thesis
        unfolding r by (rule grows_register) (simp_all add: f)
    qed
  qed
qed

lemma callFn_grows: "grows s (snd (callFn E s f this args))"
  by (cases f) (simp_all add: callFn_def callStub_grows grows_refl)

lemma catchRequest_grows: "grows s (snd (catchRequest E s i reply e))"
proof (cases "truthy i")
  case False
  then show ?thesis by (simp add: catchRequest_def grows_refl)
next
  case True
  obtain w s1 where m: "mapValue E s e = (w, s1)" by (cases "mapValue E s e")
  have 1: "grows s s1" using mapValue_grows [of s E e] m by simp
  obtain r s2 where sr: "sendReply E s1 reply (negate i) w = (r, s2)"
    by (cases "sendReply E s1 reply (negate i) w")
  have 2: "grows s1 s2" using sendReply_grows [of s1 E reply "negate i" w] sr by simp
  have "snd (catchRequest E s i reply e) = s2"
    using True m sr by (cases r) (simp_all add: catchRequest_def)
  then show ?thesis using grows_trans [OF 1 2] by simp
qed

lemma catchRequest_live: "port s \<Longrightarrow> \<exists>b. fst (catchRequest E s i reply e) = Inr b"
proof -
  assume p: "port s"
  obtain w s1 where m: "mapValue E s e = (w, s1)" by (cases "mapValue E s e")
  have "port s1" using mapValue_grows [of s E e] m p by (simp add: grows_def)
  then obtain v where "fst (sendReply E s1 reply (negate i) w) = Inr v"
    using sendReply_live by blast
  then show ?thesis
    using m by (cases "sendReply E s1 reply (negate i) w") (auto simp: catchRequest_def)
qed

lemma answer_grows: "grows s (snd (answer E s i reply v))"
proof (cases "isPromise v")
  case True
  then obtain p where "v = Prom p" by (cases v) auto
  then show ?thesis by (simp add: answer_def grows_refl)
next
  case False
  show ?thesis
  proof (cases "i = Num 0")
    case True
    then show ?thesis using False by (simp add: answer_def grows_refl)
  next
    case ne: False
    obtain w s1 where m: "mapValue E s v = (w, s1)" by (cases "mapValue E s v")
    have 1: "grows s s1" using mapValue_grows [of s E v] m by simp
    obtain r s2 where sr: "sendReply E s1 reply (toNumber i) w = (r, s2)"
      by (cases "sendReply E s1 reply (toNumber i) w")
    have 2: "grows s1 s2" using sendReply_grows [of s1 E reply "toNumber i" w] sr by simp
    have 3: "grows s s2" using grows_trans [OF 1 2] .
    show ?thesis
    proof (cases r)
      case (Inl e)
      then have "snd (answer E s i reply v) = snd (catchRequest E s2 i reply e)"
        using False ne m sr by (simp add: answer_def)
      then show ?thesis using grows_trans [OF 3 catchRequest_grows] by simp
    next
      case (Inr x)
      then have "snd (answer E s i reply v) = s2"
        using False ne m sr by (simp add: answer_def)
      then show ?thesis using 3 by simp
    qed
  qed
qed

lemma answer_live: "port s \<Longrightarrow> \<exists>b. fst (answer E s i reply v) = Inr b"
proof -
  assume p: "port s"
  show ?thesis
  proof (cases "isPromise v")
    case True
    then obtain q where "v = Prom q" by (cases v) auto
    then show ?thesis by (auto simp: answer_def)
  next
    case False
    show ?thesis
    proof (cases "i = Num 0")
      case True
      then show ?thesis using False by (auto simp: answer_def)
    next
      case ne: False
      obtain w s1 where m: "mapValue E s v = (w, s1)" by (cases "mapValue E s v")
      have "port s1" using mapValue_grows [of s E v] m p by (simp add: grows_def)
      then obtain x where "fst (sendReply E s1 reply (toNumber i) w) = Inr x"
        using sendReply_live by blast
      then show ?thesis
        using False ne m by (cases "sendReply E s1 reply (toNumber i) w") (auto simp: answer_def)
    qed
  qed
qed

subsection \<open>The request branch of \<open>onData\<close>\<close>

lemma specialRequest_grows: "grows s (snd (specialRequest E s i0 args))"
proof (cases "nullish args")
  case True
  then show ?thesis by (simp add: specialRequest_def grows_refl)
next
  case False
  show ?thesis
  proof (cases "elemAt args 1 = Num 0")
    case False
    then show ?thesis using \<open>\<not> nullish args\<close> by (simp add: specialRequest_def Let_def grows_refl)
  next
    case True
    show ?thesis
    proof (cases "id2cbGet s (elemAt args 2)")
      case None
      then show ?thesis using True \<open>\<not> nullish args\<close> by (simp add: specialRequest_def Let_def grows_refl)
    next
      case (Some callback)
      obtain r s1 where u: "unmapArgs E s (elemAt args 3) = (r, s1)"
        by (cases "unmapArgs E s (elemAt args 3)")
      have 1: "grows s s1" using unmapArgs_grows [of s E "elemAt args 3"] u by simp
      show ?thesis
      proof (cases r)
        case (Inl e)
        then have "snd (specialRequest E s i0 args) = s1"
          using True \<open>\<not> nullish args\<close> Some u by (simp add: specialRequest_def Let_def)
        then show ?thesis using 1 by simp
      next
        case (Inr as)
        obtain r2 s2 where c: "callFn E s1 callback Null as = (r2, s2)"
          by (cases "callFn E s1 callback Null as")
        have 2: "grows s1 s2" using callFn_grows [of s1 E callback Null as] c by simp
        have "snd (specialRequest E s i0 args) = s2"
          using True \<open>\<not> nullish args\<close> Some u Inr c by (cases r2) (simp_all add: specialRequest_def Let_def)
        then show ?thesis using grows_trans [OF 1 2] by simp
      qed
    qed
  qed
qed

lemma namedRequest_grows: "grows s (snd (namedRequest E s name i args altThis optional))"
proof -
  obtain r s1 where u: "unmapArgs E s args = (r, s1)" by (cases "unmapArgs E s args")
  have 1: "grows s s1" using unmapArgs_grows [of s E args] u by simp
  show ?thesis
  proof (cases r)
    case (Inl e)
    then have "snd (namedRequest E s name i args altThis optional) = s1"
      using u by (simp add: namedRequest_def)
    then show ?thesis using 1 by simp
  next
    case (Inr as)
    obtain found as' where f: "(case exactHandler s1 name of
                    Some pair \<Rightarrow> (Some pair, as)
                  | None \<Rightarrow> (wildcardHandler E s1 name, name # as)) = (found, as')"
      by (cases "(case exactHandler s1 name of
                    Some pair \<Rightarrow> (Some pair, as)
                  | None \<Rightarrow> (wildcardHandler E s1 name, name # as))")
    show ?thesis
    proof (cases found)
      case None
      then have "snd (namedRequest E s name i args altThis optional) = s1"
        using u Inr f by (simp add: namedRequest_def)
      then show ?thesis using 1 by simp
    next
      case (Some pair)
      obtain handler thisArg where p: "pair = (handler, thisArg)" by (cases pair)
      let ?t = "s1\<lparr>isRequestFlag := (if i = Num 0 then - 1 else 1)\<rparr>"
      let ?rcv = "if thisArg \<noteq> Undefined then thisArg else altThis"
      obtain r2 s2 where c: "callFn E ?t handler ?rcv as' = (r2, s2)"
        by (cases "callFn E ?t handler ?rcv as'")
      have 2: "grows s1 s2" using callFn_grows [of ?t E handler ?rcv as'] c by simp
      have "snd (namedRequest E s name i args altThis optional) = s2\<lparr>isRequestFlag := 0\<rparr>"
        using u Inr f Some p c by (cases r2) (simp_all add: namedRequest_def)
      then show ?thesis using grows_trans [OF 1 2] by simp
    qed
  qed
qed

lemma onData_request_grows:
  assumes "truthy name \<or> i0 = Num 0"
  shows "grows s (snd (onData E s name i0 args altThis reply optional))"
proof -
  let ?r = "(if \<not> truthy name \<and> i0 = Num 0 then specialRequest E s i0 args
            else (let (h, s1) = namedRequest E s name i0 args altThis optional in ((h, i0), s1)))"
  obtain h i s1 where r: "?r = ((h, i), s1)" by (cases ?r) auto
  have 1: "grows s s1"
  proof (cases "\<not> truthy name \<and> i0 = Num 0")
    case True
    then show ?thesis using r specialRequest_grows [of s E i0 args] by simp
  next
    case False
    then show ?thesis
      using r namedRequest_grows [of s E name i0 args altThis optional]
      by (auto simp: split_beta)
  qed
  have o: "onData E s name i0 args altThis reply optional
      = (case h of Thrown e \<Rightarrow> catchRequest E s1 i reply e
         | Done b \<Rightarrow> (Inr b, s1) | Value v \<Rightarrow> answer E s1 i reply v)"
    using assms r unfolding onData_def by (simp only: if_True Let_def split_conv)
  show ?thesis
  proof (cases h)
    case (Thrown e)
    then show ?thesis using o grows_trans [OF 1 catchRequest_grows] by simp
  next
    case (Value v)
    then show ?thesis using o grows_trans [OF 1 answer_grows] by simp
  next
    case (Done b)
    then show ?thesis using o 1 by simp
  qed
qed

lemma onData_request_live:
  assumes "truthy name \<or> i0 = Num 0" and "port s"
  shows "\<exists>b. fst (onData E s name i0 args altThis reply optional) = Inr b"
proof -
  let ?r = "(if \<not> truthy name \<and> i0 = Num 0 then specialRequest E s i0 args
            else (let (h, s1) = namedRequest E s name i0 args altThis optional in ((h, i0), s1)))"
  obtain h i s1 where r: "?r = ((h, i), s1)" by (cases ?r) auto
  have "grows s s1"
  proof (cases "\<not> truthy name \<and> i0 = Num 0")
    case True
    then show ?thesis using r specialRequest_grows [of s E i0 args] by simp
  next
    case False
    then show ?thesis
      using r namedRequest_grows [of s E name i0 args altThis optional]
      by (auto simp: split_beta)
  qed
  then have p: "port s1" using assms(2) by (simp add: grows_def)
  have o: "onData E s name i0 args altThis reply optional
      = (case h of Thrown e \<Rightarrow> catchRequest E s1 i reply e
         | Done b \<Rightarrow> (Inr b, s1) | Value v \<Rightarrow> answer E s1 i reply v)"
    using assms(1) r unfolding onData_def by (simp only: if_True Let_def split_conv)
  show ?thesis
    using o p catchRequest_live answer_live by (cases h) auto
qed

lemma flushQueue_grows: "grows s (snd (flushQueue E s q))"
proof (induction q arbitrary: s)
  case Nil
  show ?case by (simp add: grows_refl)
next
  case (Cons a q)
  obtain name args where a: "a = (name, args)" by (cases a)
  obtain r s1 where o: "onData E s name (Num 0) args Undefined False False = (r, s1)"
    by (cases "onData E s name (Num 0) args Undefined False False")
  have 1: "grows s s1"
    using onData_request_grows [of name "Num 0" s E args Undefined False False] o by simp
  show ?case
  proof (cases r)
    case (Inl e)
    then show ?thesis using a o 1 by simp
  next
    case (Inr b)
    then have "snd (flushQueue E s (a # q)) = snd (flushQueue E s1 q)" using a o by simp
    then show ?thesis using grows_trans [OF 1 Cons.IH [of s1]] by simp
  qed
qed

lemma flushQueue_live: "port s \<Longrightarrow> fst (flushQueue E s q) = None"
proof (induction q arbitrary: s)
  case Nil
  show ?case by simp
next
  case (Cons a q)
  obtain name args where a: "a = (name, args)" by (cases a)
  obtain r s1 where o: "onData E s name (Num 0) args Undefined False False = (r, s1)"
    by (cases "onData E s name (Num 0) args Undefined False False")
  obtain b where b: "r = Inr b"
    using onData_request_live [of name "Num 0" s E args Undefined False False] Cons.prems o by auto
  have "grows s s1"
    using onData_request_grows [of name "Num 0" s E args Undefined False False] o by simp
  then have "port s1" using Cons.prems by (simp add: grows_def)
  then show ?case using a o b Cons.IH [of s1] by simp
qed

subsection \<open>Termination\<close>

lemma settle_length [simp]: "length (promises (settle p r t)) = length (promises t)"
  by (simp add: settle_def)

lemma settle_nth:
  "promises (settle p r t) ! q
     = (if q = p \<and> p < length (promises t) \<and> promises t ! p = Pending then r else promises t ! q)"
  by (simp add: settle_def)

lemma settle_fold_length [simp]:
  "length (promises (fold (\<lambda>(i, p). settle p r) l t)) = length (promises t)"
  by (induction l arbitrary: t) (auto simp: split_beta)

lemma settle_fold_nth:
  assumes "r \<noteq> Pending"
  shows "promises (fold (\<lambda>(i, p). settle p r) l t) ! q
     = (if q \<in> snd ` set l \<and> q < length (promises t) \<and> promises t ! q = Pending
        then r else promises t ! q)"
proof (induction l arbitrary: t)
  case Nil
  show ?case by simp
next
  case (Cons a l)
  obtain i p where a: "a = (i, p)" by (cases a)
  show ?case
    using assms by (simp add: a Cons.IH settle_nth) auto
qed

lemma settle_frame: "settle p r t = t\<lparr>promises := promises (settle p r t)\<rparr>"
  by (simp add: settle_def)

lemma settle_fold_frame:
  "fold (\<lambda>(i, p). settle p r) l t = t\<lparr>promises := promises (fold (\<lambda>(i, p). settle p r) l t)\<rparr>"
proof (induction l arbitrary: t)
  case Nil
  show ?case by simp
next
  case (Cons a l)
  obtain i p where a: "a = (i, p)" by (cases a)
  have "fold (\<lambda>(i, p). settle p r) (a # l) t = fold (\<lambda>(i, p). settle p r) l (settle p r t)"
    by (simp add: a)
  also have "\<dots> = (settle p r t)\<lparr>promises := promises (fold (\<lambda>(i, p). settle p r) l (settle p r t))\<rparr>"
    by (rule Cons.IH)
  also have "\<dots> = t\<lparr>promises := promises (fold (\<lambda>(i, p). settle p r) l (settle p r t))\<rparr>"
    by (subst settle_frame) simp
  finally show ?case by (simp add: a)
qed

lemma rejectAll_frame: "rejectAll s = s\<lparr>promises := promises (rejectAll s)\<rparr>"
  unfolding rejectAll_def by (rule settle_fold_frame)

lemma rejectAll_nth:
  "promises (rejectAll s) ! q
     = (if q \<in> snd ` set (requests s) \<and> q < length (promises s) \<and> promises s ! q = Pending
        then Rejected destroyedError else promises s ! q)"
  unfolding rejectAll_def by (rule settle_fold_nth) simp

lemma destroyAdapter_frame:
  "destroyAdapter E s = s\<lparr>adapterDestroyed := adapterDestroyed (destroyAdapter E s),
      reported := reported (destroyAdapter E s)\<rparr>"
  by (simp add: destroyAdapter_def Let_def split: option.splits)

lemma destroyAdapter_fields [simp]:
  "requests (destroyAdapter E s) = requests s"
  "promises (destroyAdapter E s) = promises s"
  "lastId (destroyAdapter E s) = lastId s"
  "public (destroyAdapter E s) = public s"
  "port (destroyAdapter E s) = port s"
  by (simp_all add: destroyAdapter_def Let_def split: option.splits)

lemma rejectAll_fields [simp]:
  "requests (rejectAll s) = requests s"
  "lastId (rejectAll s) = lastId s"
  "public (rejectAll s) = public s"
  "port (rejectAll s) = port s"
  "adapterDestroyed (rejectAll s) = adapterDestroyed s"
  by (subst rejectAll_frame, simp)+

lemma destroyAdapter_count:
  "adapterDestroyed (destroyAdapter E s) = (if port s then adapterDestroyed s + 1 else adapterDestroyed s)"
  by (simp add: destroyAdapter_def Let_def split: option.splits)

lemma destroy_closed: "\<not> public s \<Longrightarrow> destroy E s reason = (Inr Undefined, s)"
  by (simp add: destroy_def)

lemma destroy_open:
  assumes "public s" and "port s"
  shows "fst (destroy E s reason) = Inr Undefined"
    and "\<not> public (snd (destroy E s reason))"
    and "\<not> port (snd (destroy E s reason))"
    and "adapterDestroyed (snd (destroy E s reason)) = adapterDestroyed s + 1"
    and "requests (snd (destroy E s reason)) = []"
    and "promises (snd (destroy E s reason)) = promises (rejectAll (snd (flushQueue E s (endQueue s))))"
    and "lastId (snd (destroy E s reason)) = lastId (snd (flushQueue E s (endQueue s)))"
proof -
  obtain s1 where f: "flushQueue E s (endQueue s) = (None, s1)"
    using flushQueue_live [OF assms(2), of E "endQueue s"]
    by (cases "flushQueue E s (endQueue s)") auto
  have g: "grows s s1" using flushQueue_grows [of s E "endQueue s"] f by simp
  then have p: "port s1" "adapterDestroyed s1 = adapterDestroyed s"
    using assms(2) by (simp_all add: grows_def)
  let ?s4 = "(rejectAll s1)\<lparr>requests := [], handlers := Map.empty, id2cb := Map.empty,
      ended := (case ended (rejectAll s1) of None \<Rightarrow> Some (if typeof reason = TObject then reason else Null)
                | Some r \<Rightarrow> Some r)\<rparr>"
  have d: "destroy E s reason = (Inr Undefined, (destroyAdapter E ?s4)\<lparr>public := False, port := False\<rparr>)"
    using assms(1) f by (simp add: destroy_def Let_def)
  show "fst (destroy E s reason) = Inr Undefined" by (simp add: d)
  show "\<not> public (snd (destroy E s reason))" by (simp add: d)
  show "\<not> port (snd (destroy E s reason))" by (simp add: d)
  show "adapterDestroyed (snd (destroy E s reason)) = adapterDestroyed s + 1"
    using p by (simp add: d destroyAdapter_count)
  show "requests (snd (destroy E s reason)) = []"
    by (simp add: d)
  show "promises (snd (destroy E s reason)) = promises (rejectAll (snd (flushQueue E s (endQueue s))))"
    by (simp add: d f)
  show "lastId (snd (destroy E s reason)) = lastId (snd (flushQueue E s (endQueue s)))"
    by (simp add: d f)
qed

lemma destroy_rejects:
  assumes "public s" and "port s" and "e \<in> set (requests s)" and "fst e \<le> lastId s"
    and "snd e < length (promises s)" and "promises s ! snd e = Pending"
  shows "promises (snd (destroy E s reason)) ! snd e = Rejected destroyedError"
proof -
  let ?s1 = "snd (flushQueue E s (endQueue s))"
  have g: "grows s ?s1" by (rule flushQueue_grows)
  then have 1: "e \<in> set (requests ?s1)" using assms(3,4) by (auto simp: grows_def)
  obtain ps where ps: "promises ?s1 = promises s @ ps" using g by (auto simp: grows_def)
  have 2: "snd e < length (promises ?s1)" "promises ?s1 ! snd e = Pending"
    using assms(5,6) by (simp_all add: ps nth_append)
  have "snd e \<in> snd ` set (requests ?s1)" using 1 by (rule imageI)
  then have "promises (rejectAll ?s1) ! snd e = Rejected destroyedError"
    using 2 by (simp add: rejectAll_nth)
  then show ?thesis using destroy_open(6) [OF assms(1,2)] by simp
qed

subsection \<open>The reply branch\<close>

lemma grows_steady: "grows s s' \<Longrightarrow> steady s s'"
  by (simp add: grows_def steady_def)

lemma steady_refl: "steady s s"
  by (simp add: steady_def)

lemma wellFormed_delete_settle:
  assumes "wellFormed s" and "map_of (requests s) n = Some p"
  shows "wellFormed (settle p r (s\<lparr>requests := AList.delete n (requests s)\<rparr>))"
proof -
  have d: "distinct (map snd (requests s))" using assms(1) by (simp add: wellFormed_def)
  have np: "(n, p) \<in> set (requests s)" using assms(2) by (rule map_of_SomeD)
  have other: "snd e \<noteq> p" if "e \<in> set (AList.delete n (requests s))" for e
  proof
    assume "snd e = p"
    have e: "e \<in> set (requests s)" "fst e \<noteq> n" using that by (auto simp: AList.delete_eq)
    have "inj_on snd (set (requests s))" using d by (simp add: distinct_map)
    moreover have "snd e = snd (n, p)" using \<open>snd e = p\<close> by simp
    ultimately have "e = (n, p)" using e(1) np by (rule inj_onD)
    then show False using e(2) by simp
  qed
  have d': "distinct (map snd (AList.delete n (requests s)))"
    using d by (simp add: AList.delete_eq distinct_map_filter)
  let ?t = "settle p r (s\<lparr>requests := AList.delete n (requests s)\<rparr>)"
  have rq: "requests ?t = AList.delete n (requests s)" by (simp add: settle_def)
  have ent: "fst e \<le> lastId ?t \<and> snd e < length (promises ?t) \<and> promises ?t ! snd e = Pending"
    if "e \<in> set (requests ?t)" for e
  proof -
    have e: "e \<in> set (AList.delete n (requests s))" using that rq by simp
    then have es: "e \<in> set (requests s)" by (auto simp: AList.delete_eq)
    have "snd e \<noteq> p" using e by (rule other)
    then show ?thesis
      using assms(1) es by (auto simp: wellFormed_def settle_def)
  qed
  show ?thesis
    unfolding wellFormed_def using d' ent by (simp add: rq)
qed

lemma wellFormed_delete:
  assumes "wellFormed s"
  shows "wellFormed (s\<lparr>requests := AList.delete n (requests s)\<rparr>)"
  using assms by (auto simp: wellFormed_def AList.delete_eq distinct_map_filter)

lemma wellFormed_update [simp]:
  "wellFormed (s\<lparr>reported := a\<rparr>) = wellFormed s"
  "wellFormed (s\<lparr>cb2id := b\<rparr>) = wellFormed s"
  "wellFormed (s\<lparr>id2cb := c\<rparr>) = wellFormed s"
  "wellFormed (s\<lparr>stubsMade := d\<rparr>) = wellFormed s"
  "wellFormed (s\<lparr>handlers := e\<rparr>) = wellFormed s"
  "wellFormed (s\<lparr>wildcards := f\<rparr>) = wellFormed s"
  "wellFormed (s\<lparr>attached := g\<rparr>) = wellFormed s"
  "wellFormed (s\<lparr>sent := h\<rparr>) = wellFormed s"
  by (simp_all add: wellFormed_def)

lemma unmapValue_wellFormed: "wellFormed (snd (unmapValue E s v)) = wellFormed s"
  by (subst unmapValue_frame_eq) simp

lemma unmapValue_life:
  "public (snd (unmapValue E s v)) = public s"
  "port (snd (unmapValue E s v)) = port s"
  "adapterDestroyed (snd (unmapValue E s v)) = adapterDestroyed s"
  by (subst unmapValue_frame_eq, simp)+

lemma settle_life [simp]:
  "public (settle p r s) = public s"
  "port (settle p r s) = port s"
  "adapterDestroyed (settle p r s) = adapterDestroyed s"
  "requests (settle p r s) = requests s"
  "lastId (settle p r s) = lastId s"
  by (simp_all add: settle_def)

lemma resolveReply_steady: "steady s (snd (resolveReply E s i0 args))"
proof -
  let ?i = "if lessZero i0 then negate i0 else i0"
  show ?thesis
  proof (cases "\<exists>n. ?i = Num n")
    case False
    then have "snd (resolveReply E s i0 args)
        = s\<lparr>reported := reported s @ [[newError ''Error'' ''Bad or duplicate response id'']]\<rparr>"
      by (cases ?i) (auto simp: resolveReply_def Let_def)
    then show ?thesis by (simp add: steady_def)
  next
    case True
    then obtain n where n: "?i = Num n" by blast
    let ?s1 = "s\<lparr>requests := AList.delete n (requests s)\<rparr>"
    show ?thesis
    proof (cases "map_of (requests s) n")
      case None
      then have "snd (resolveReply E s i0 args)
          = ?s1\<lparr>reported := reported ?s1 @ [[newError ''Error'' ''Bad or duplicate response id'']]\<rparr>"
        using n by (simp add: resolveReply_def Let_def)
      then show ?thesis using wellFormed_delete [of s n] by (simp add: steady_def)
    next
      case (Some p)
      show ?thesis
      proof (cases "nullish args")
        case True
        then have "snd (resolveReply E s i0 args) = ?s1\<lparr>reported := reported ?s1 @ [[readError args]]\<rparr>"
          using n Some by (simp add: resolveReply_def Let_def)
        then show ?thesis using wellFormed_delete [of s n] by (simp add: steady_def)
      next
        case False
        obtain r s2 where u: "unmapValue E ?s1 (elemAt args 0) = (r, s2)"
          by (cases "unmapValue E ?s1 (elemAt args 0)")
        have f: "s2 = ?s1\<lparr>cb2id := cb2id s2, id2cb := id2cb s2, stubsMade := stubsMade s2\<rparr>"
          using unmapValue_frame_eq [of E ?s1 "elemAt args 0"] u by simp
        show ?thesis
        proof (cases r)
          case (Inl e)
          then have "snd (resolveReply E s i0 args) = s2\<lparr>reported := reported s2 @ [[e]]\<rparr>"
            using n Some False u by (simp add: resolveReply_def Let_def)
          then show ?thesis
            using wellFormed_delete [of s n] by (subst (asm) f) (simp add: steady_def)
        next
          case (Inr v)
          let ?r = "if lessZero i0 then Rejected v else Fulfilled v"
          have res: "snd (resolveReply E s i0 args) = settle p ?r s2"
            using n Some False u Inr by (simp add: resolveReply_def Let_def)
          have "settle p ?r s2
              = (settle p ?r ?s1)\<lparr>cb2id := cb2id s2, id2cb := id2cb s2, stubsMade := stubsMade s2\<rparr>"
            by (subst f) (simp add: settle_def)
          then have w: "wellFormed s \<longrightarrow> wellFormed (settle p ?r s2)"
            using wellFormed_delete_settle [of s n p ?r] Some by simp
          have "public s2 = public s" "port s2 = port s" "adapterDestroyed s2 = adapterDestroyed s"
            by (subst f, simp)+
          then show ?thesis using w by (simp add: res steady_def)
        qed
      qed
    qed
  qed
qed

lemma onData_steady: "steady s (snd (onData E s name i0 args altThis reply optional))"
proof (cases "truthy name \<or> i0 = Num 0")
  case True
  then show ?thesis by (intro grows_steady onData_request_grows)
next
  case False
  then have "snd (onData E s name i0 args altThis reply optional) = snd (resolveReply E s i0 args)"
    by (simp add: onData_def split_beta)
  then show ?thesis using resolveReply_steady by simp
qed

lemma onData_reply_live:
  "\<not> (truthy name \<or> i0 = Num 0) \<Longrightarrow> \<exists>b. fst (onData E s name i0 args altThis reply optional) = Inr b"
  by (simp add: onData_def split_beta)

subsection \<open>The public operations\<close>

lemma request_grows: "grows s (snd (request E s name0 args0))"
proof -
  obtain options name args where sh: "shiftOptions name0 args0 = (options, name, args)"
    by (cases "shiftOptions name0 args0")
  show ?thesis
  proof (cases "typeof name \<noteq> TString")
    case True
    then show ?thesis using sh by (simp add: request_def grows_refl)
  next
    case str: False
    let ?s1 = "s\<lparr>lastId := lastId s + 1\<rparr>"
    obtain mapped s2 where m: "mapValues E ?s1 args = (mapped, s2)" by (cases "mapValues E ?s1 args")
    obtain a b c where f: "s2 = ?s1\<lparr>cb2id := a, id2cb := b, randomDrawn := c\<rparr>"
      using mapValues_frame [of E ?s1 args] m by auto
    have k: "grows s s2"
      unfolding f by (simp, rule grows_keep) simp_all
    show ?thesis
    proof (cases "port s")
      case False
      then have "snd (request E s name0 args0) = s2"
        using sh str m f by (simp add: request_def nextId_def portSend_def)
      then show ?thesis using k by simp
    next
      case live: True
      let ?m = "(name, Num (lastId s + 1), Arr mapped, options)"
      show ?thesis
      proof (cases "adapterSend E name (Num (lastId s + 1)) (Arr mapped) options \<noteq> Undefined")
        case True
        then have "snd (request E s name0 args0) = s2\<lparr>sent := sent s2 @ [?m]\<rparr>"
          using sh str live m f by (simp add: request_def nextId_def portSend_def)
        then show ?thesis using k by simp
      next
        case False
        then have r: "snd (request E s name0 args0)
            = s2\<lparr>sent := sent s2 @ [?m], promises := promises s2 @ [Pending],
                 requests := AList.update (lastId s + 1) (length (promises s2)) (requests s2)\<rparr>"
          using sh str live m f
          by (simp add: request_def nextId_def portSend_def newCapability_def)
        show ?thesis
          unfolding r by (rule grows_register) (simp_all add: f)
      qed
    qed
  qed
qed

lemma post_grows: "grows s (snd (post E s name0 args0))"
proof -
  obtain options name args where sh: "shiftOptions name0 args0 = (options, name, args)"
    by (cases "shiftOptions name0 args0")
  obtain mapped s1 where m: "mapValues E s args = (mapped, s1)" by (cases "mapValues E s args")
  have 1: "grows s s1" using mapValues_grows [of s E args] m by simp
  obtain r s2 where p: "portSend E s1 name (Num 0) (Arr mapped) options = (r, s2)"
    by (cases "portSend E s1 name (Num 0) (Arr mapped) options")
  have 2: "grows s1 s2" using portSend_grows [of s1 E name "Num 0" "Arr mapped" options] p by simp
  have "snd (post E s name0 args0) = s \<or> snd (post E s name0 args0) = s2"
    using sh m p by (cases r) (simp_all add: post_def)
  then show ?thesis using grows_trans [OF 1 2] grows_refl by auto
qed

lemma afterEnded_grows: "grows s (snd (afterEnded E s name0 args0))"
proof -
  obtain options name args where sh: "shiftOptions name0 args0 = (options, name, args)"
    by (cases "shiftOptions name0 args0")
  obtain mapped s1 where m: "mapValues E s args = (mapped, s1)" by (cases "mapValues E s args")
  have 1: "grows s s1" using mapValues_grows [of s E args] m by simp
  let ?a = "Arr [Num 0, Num 1, name, Arr mapped]"
  obtain r s2 where p: "portSend E s1 (Str []) (Num 0) ?a options = (r, s2)"
    by (cases "portSend E s1 (Str []) (Num 0) ?a options")
  have 2: "grows s1 s2" using portSend_grows [of s1 E "Str []" "Num 0" ?a options] p by simp
  have "snd (afterEnded E s name0 args0) = s \<or> snd (afterEnded E s name0 args0) = s2"
    using sh m p by (cases r) (simp_all add: afterEnded_def)
  then show ?thesis using grows_trans [OF 1 2] grows_refl by auto
qed

lemma releaseCallback_grows: "grows s (snd (releaseCallback E s callback remote))"
proof (cases "truthy (cb2idGet s callback)")
  case False
  then show ?thesis by (simp add: releaseCallback_def grows_refl)
next
  case True
  let ?s1 = "s\<lparr>id2cb := (id2cb s)(cb2idGet s callback := None),
      cb2id := (case callback of Fun f \<Rightarrow> (cb2id s)(f := None) | _ \<Rightarrow> cb2id s)\<rparr>"
  have 1: "grows s ?s1" by (simp add: grows_refl)
  let ?a = "Arr [Num 0, Num 2, cb2idGet s callback]"
  obtain r s2 where p: "portSend E ?s1 (Str []) (Num 0) ?a Null = (r, s2)"
    by (cases "portSend E ?s1 (Str []) (Num 0) ?a Null")
  have 2: "grows ?s1 s2" using portSend_grows [of ?s1 E "Str []" "Num 0" ?a Null] p by simp
  have "snd (releaseCallback E s callback remote) = ?s1 \<or> snd (releaseCallback E s callback remote) = s2"
    using True p by (cases r) (simp_all add: releaseCallback_def Let_def)
  then show ?thesis using 1 grows_trans [OF 1 2] by auto
qed

lemma addHandler_grows: "grows s (snd (addHandler s name handler thisArg))"
  by (auto simp: addHandler_def Let_def grows_refl
      split: handlerName.splits jsval.splits prod.splits)

lemma registerBatch_frame:
  "registerBatch prefix thisArg add s = s\<lparr>handlers := handlers (registerBatch prefix thisArg add s)\<rparr>"
proof (induction add arbitrary: s)
  case Nil
  show ?case by simp
next
  case (Cons a add)
  obtain name f where a: "a = (name, f)" by (cases a)
  let ?t = "s\<lparr>handlers := (handlers s)(prefix @ toStr name \<mapsto> (f, thisArg))\<rparr>"
  have "registerBatch prefix thisArg (a # add) s = registerBatch prefix thisArg add ?t"
    by (simp add: a)
  also have "\<dots> = ?t\<lparr>handlers := handlers (registerBatch prefix thisArg add ?t)\<rparr>"
    by (rule Cons.IH)
  finally show ?case by (simp add: a)
qed

lemma addHandlers_grows: "grows s (snd (addHandlers s prefix hs thisArg))"
proof -
  have r: "\<And>pre t add. grows s (registerBatch pre t add s)"
    by (subst registerBatch_frame) (simp add: grows_refl)
  show ?thesis
    by (auto simp: addHandlers_def Let_def grows_refl r
        split: jsval.splits option.splits prod.splits)
qed

lemma removeHandler_grows: "grows s (removeHandler s name)"
  by (auto simp: removeHandler_def grows_refl split: handlerName.splits jsval.splits)

lemma runContinuation_grows: "grows s (runContinuation E s k outcome)"
proof (cases k)
  case ReportRejection
  then show ?thesis by (cases outcome) (simp_all add: runContinuation_def grows_refl)
next
  case (ReplyUnder i reply)
  obtain x where x: "outcome = Inl x \<or> outcome = Inr x" by (cases outcome) auto
  obtain w s1 where m: "mapValue E s x = (w, s1)" by (cases "mapValue E s x")
  have 1: "grows s s1" using mapValue_grows [of s E x] m by simp
  have "grows s1 (snd (sendReply E s1 reply (toNumber i) w))"
    "grows s1 (snd (sendReply E s1 reply (negate i) w))"
    by (rule sendReply_grows)+
  then have "grows s (snd (sendReply E s1 reply (toNumber i) w))"
    "grows s (snd (sendReply E s1 reply (negate i) w))"
    using 1 by (blast intro: grows_trans)+
  then show ?thesis
    using x m ReplyUnder by (auto simp: runContinuation_def)
qed

lemma continuations_grow:
  "grows s (fold (\<lambda>(q, k) t. if q = p then runContinuation E t k outcome else t) l s)"
proof (induction l arbitrary: s)
  case Nil
  show ?case by (simp add: grows_refl)
next
  case (Cons a l)
  obtain q k where a: "a = (q, k)" by (cases a)
  let ?t = "if q = p then runContinuation E s k outcome else s"
  have 1: "grows s ?t" by (simp add: runContinuation_grows grows_refl)
  have "fold (\<lambda>(q, k) t. if q = p then runContinuation E t k outcome else t) (a # l) s
      = fold (\<lambda>(q, k) t. if q = p then runContinuation E t k outcome else t) l ?t"
    by (simp add: a)
  then show ?case using grows_trans [OF 1 Cons.IH [of ?t]] by simp
qed

lemma settleHandlerPromise_grows: "grows s (settleHandlerPromise E s p outcome)"
proof -
  let ?s0 = "s\<lparr>attached := filter (\<lambda>(q, k). q \<noteq> p) (attached s)\<rparr>"
  have 1: "grows s ?s0" by (simp add: grows_refl)
  have 2: "grows ?s0 (settleHandlerPromise E s p outcome)"
    unfolding settleHandlerPromise_def by (rule continuations_grow)
  show ?thesis using 1 2 by (rule grows_trans)
qed

subsection \<open>Every reachable port is consistent\<close>

lemma steady_consistent: "steady s s' \<Longrightarrow> consistent s \<Longrightarrow> consistent s'"
  by (simp add: steady_def consistent_def lifecycle_def)

lemma steady_closed: "steady s s' \<Longrightarrow> \<not> public s \<Longrightarrow> \<not> public s'"
  by (simp add: steady_def)

lemma destroy_consistent: "consistent s \<Longrightarrow> consistent (snd (destroy E s reason))"
proof (cases "public s")
  case False
  then show "consistent s \<Longrightarrow> ?thesis" by (simp add: destroy_closed)
next
  case True
  assume c: "consistent s"
  then have p: "port s" "adapterDestroyed s = 0" using True by (simp_all add: consistent_def lifecycle_def)
  show ?thesis
    using destroy_open [OF True p(1), of E reason] p(2)
    by (simp add: consistent_def lifecycle_def wellFormed_def)
qed

lemma destroy_closes: "consistent s \<Longrightarrow> \<not> public (snd (destroy E s reason))"
proof (cases "public s")
  case False
  then show ?thesis by (simp add: destroy_closed)
next
  case True
  assume "consistent s"
  then have "port s" using True by (simp add: consistent_def lifecycle_def)
  then show ?thesis using destroy_open(2) [OF True] by simp
qed

lemma Port_destroy_eq: "consistent s \<Longrightarrow> Port_destroy E s reason = snd (destroy E s reason)"
proof (cases "public s")
  case False
  then show ?thesis by (simp add: Port_destroy_def destroy_closed)
next
  case True
  assume "consistent s"
  then have "port s" using True by (simp add: consistent_def lifecycle_def)
  then have "fst (destroy E s reason) = Inr Undefined" using destroy_open(1) [OF True] by simp
  then show ?thesis by (cases "destroy E s reason") (simp add: Port_destroy_def)
qed

lemma step_steady:
  assumes "\<forall>r. ev \<noteq> CallDestroy r" and "\<forall>r. ev \<noteq> AdapterEnd r"
  shows "steady s (step E s ev)"
proof (cases ev)
  case (CallAddHandler name handler thisArg)
  then show ?thesis
    by (simp add: Port_addHandler_def getPrivate_def steady_refl grows_steady addHandler_grows)
next
  case (CallAddHandlers prefix hs thisArg)
  then show ?thesis
    by (simp add: Port_addHandlers_def getPrivate_def steady_refl grows_steady addHandlers_grows)
next
  case (CallRemoveHandler name)
  then show ?thesis
    by (simp add: Port_removeHandler_def getPrivate_def steady_refl grows_steady removeHandler_grows)
next
  case (CallRequest options name args)
  then show ?thesis
    by (simp add: Port_request_def getPrivate_def steady_refl grows_steady request_grows)
next
  case (CallPost options name args)
  then show ?thesis
    by (simp add: Port_post_def getPrivate_def steady_refl grows_steady post_grows)
next
  case (CallAfterEnded options name args)
  then show ?thesis
    by (simp add: Port_afterEnded_def getPrivate_def steady_refl grows_steady afterEnded_grows)
next
  case (CallReleaseCallback callback)
  then show ?thesis
    by (simp add: Port_releaseCallback_def getPrivate_def steady_refl grows_steady releaseCallback_grows)
next
  case (CallDestroy reason)
  then show ?thesis using assms(1) by simp
next
  case (CallStub cbId args)
  then show ?thesis by (simp add: grows_steady callStub_grows)
next
  case (PromiseSettled p outcome)
  then show ?thesis by (simp add: grows_steady settleHandlerPromise_grows)
next
  case (AdapterData name i args altThis reply optional)
  then show ?thesis by (simp add: onData_steady)
next
  case (AdapterEnd reason)
  then show ?thesis using assms(2) by simp
qed

lemma step_consistent: "consistent s \<Longrightarrow> consistent (step E s ev)"
proof (cases "(\<forall>r. ev \<noteq> CallDestroy r) \<and> (\<forall>r. ev \<noteq> AdapterEnd r)")
  case True
  assume "consistent s"
  moreover have "steady s (step E s ev)" using step_steady [of ev s E] True by blast
  ultimately show ?thesis using steady_consistent by blast
next
  case False
  assume c: "consistent s"
  from False obtain r where "ev = CallDestroy r \<or> ev = AdapterEnd r" by blast
  then show ?thesis
    using c by (auto simp: Port_destroy_eq destroy_consistent)
qed

lemma step_closed: "\<not> public s \<Longrightarrow> \<not> public (step E s ev)"
proof (cases "(\<forall>r. ev \<noteq> CallDestroy r) \<and> (\<forall>r. ev \<noteq> AdapterEnd r)")
  case True
  assume "\<not> public s"
  moreover have "steady s (step E s ev)" using step_steady [of ev s E] True by blast
  ultimately show ?thesis by (simp add: steady_def)
next
  case False
  assume c: "\<not> public s"
  from False obtain r where "ev = CallDestroy r \<or> ev = AdapterEnd r" by blast
  then show ?thesis
    using c by (auto simp: Port_destroy_def destroy_closed)
qed

lemma run_consistent: "consistent s \<Longrightarrow> consistent (run E s evs)"
  unfolding run_def by (induction evs arbitrary: s) (simp_all add: step_consistent)

lemma run_closed: "\<not> public s \<Longrightarrow> \<not> public (run E s evs)"
  unfolding run_def by (induction evs arbitrary: s) (simp_all add: step_closed)

lemma newPort_consistent: "consistent newPort"
  by (simp add: consistent_def lifecycle_def wellFormed_def newPort_def)

lemma reachable_consistent: "consistent (run E newPort evs)"
  using newPort_consistent by (rule run_consistent)

lemma threePending_eq:
  "threePending = newPort\<lparr>lastId := 4, promises := [Pending, Pending, Pending],
      sent := [(Str ''a'', Num 2, Arr [Undefined, Undefined], Null),
               (Str ''b'', Num 3, Arr [Undefined, Undefined], Null),
               (Str ''c'', Num 4, Arr [Undefined, Undefined], Null)],
      requests := [(2, 0), (3, 1), (4, 2)]\<rparr>"
  by (simp add: threePending_def run_def Port_request_def getPrivate_def request_def shiftOptions_def
      nextId_def mapValue_def portSend_def newCapability_def quietEnv_def newPort_def Let_def)

section \<open>Destroying a port\<close>

text \<open>
  Claim C4. On a port reached from a new one by any events and still open, \<open>destroy\<close>
  returns without a throw; every entry of the request table had a pending promise, and that
  promise is now rejected with the error \<open>The Port this request is waiting on was destroyed\<close>;
  the table is empty; and a \<open>request\<close> through the public interface throws at once, leaving
  the port as it is.
\<close>

theorem destroy_rejects_pending:
  assumes "public (run E newPort evs)"
  shows "(let s = run E newPort evs; s' = snd (destroy E s reason)
          in fst (destroy E s reason) = Inr Undefined
             \<and> Port_destroy E s reason = s'
             \<and> (\<forall>e \<in> set (requests s).
                   promises s ! snd e = Pending \<and> promises s' ! snd e = Rejected destroyedError)
             \<and> requests s' = []
             \<and> Port_request E s' a b c = (Inl (newError ''Error'' ''Can't use disconnected Port''), s'))"
proof -
  let ?s = "run E newPort evs"
  let ?s' = "snd (destroy E ?s reason)"
  have c: "consistent ?s" by (rule reachable_consistent)
  then have p: "port ?s" using assms by (simp add: consistent_def lifecycle_def)
  have w: "wellFormed ?s" using c by (simp add: consistent_def)
  have 1: "fst (destroy E ?s reason) = Inr Undefined" using destroy_open(1) [OF assms p] .
  have 2: "Port_destroy E ?s reason = ?s'" using c by (rule Port_destroy_eq)
  have 3: "\<forall>e \<in> set (requests ?s).
      promises ?s ! snd e = Pending \<and> promises ?s' ! snd e = Rejected destroyedError"
  proof
    fix e assume e: "e \<in> set (requests ?s)"
    then have f: "fst e \<le> lastId ?s" "snd e < length (promises ?s)" "promises ?s ! snd e = Pending"
      using w by (auto simp: wellFormed_def)
    show "promises ?s ! snd e = Pending \<and> promises ?s' ! snd e = Rejected destroyedError"
      using f(3) destroy_rejects [OF assms p e f] by simp
  qed
  have 4: "requests ?s' = []" using destroy_open(5) [OF assms p] .
  have "\<not> public ?s'" using destroy_open(2) [OF assms p] .
  then have 5: "Port_request E ?s' a b c = (Inl (newError ''Error'' ''Can't use disconnected Port''), ?s')"
    by (simp add: Port_request_def getPrivate_def)
  show ?thesis using 1 2 3 4 5 by (simp add: Let_def)
qed

theorem destroy_rejects_pending_witness:
  "public threePending
   \<and> requests threePending = [(2, 0), (3, 1), (4, 2)]
   \<and> promises threePending = [Pending, Pending, Pending]
   \<and> fst (destroy quietEnv threePending Undefined) = Inr Undefined
   \<and> promises (snd (destroy quietEnv threePending Undefined))
       = [Rejected destroyedError, Rejected destroyedError, Rejected destroyedError]
   \<and> requests (snd (destroy quietEnv threePending Undefined)) = []
   \<and> fst (Port_request quietEnv (snd (destroy quietEnv threePending Undefined)) (Str ''d'') Undefined Undefined)
       = Inl (newError ''Error'' ''Can't use disconnected Port'')"
proof -
  have p: "public (run quietEnv newPort
       [CallRequest (Str ''a'') Undefined Undefined, CallRequest (Str ''b'') Undefined Undefined,
        CallRequest (Str ''c'') Undefined Undefined])"
    using threePending_eq by (simp add: threePending_def newPort_def)
  have q: "promises (snd (destroy quietEnv threePending Undefined))
       = [Rejected destroyedError, Rejected destroyedError, Rejected destroyedError]"
    by (simp add: threePending_eq destroy_def rejectAll_def settle_def destroyAdapter_def quietEnv_def
        newPort_def Let_def)
  have e: "requests threePending = [(2, 0), (3, 1), (4, 2)]"
    "promises threePending = [Pending, Pending, Pending]"
    by (simp_all add: threePending_eq)
  show ?thesis
    using p q e destroy_rejects_pending [OF p, of Undefined "Str ''d''" Undefined Undefined]
    by (simp add: Let_def threePending_def [symmetric])
qed

text \<open>
  Claim C5. Take a port reached from a new one by any events, then an invocation of
  \<open>destroy\<close> (by the application, or by the adapter through \<open>onEnd\<close>), then any further
  events. Another \<open>destroy\<close> there returns without a throw and leaves the whole port as it
  is. And on every reachable port the adapter's \<open>destroy\<close> has been invoked at most once.
\<close>

theorem later_destroy_is_noop:
  assumes "d = CallDestroy reason \<or> d = AdapterEnd reason"
  shows "(let s2 = run E (step E (run E newPort before) d) after
          in destroy E s2 reason' = (Inr Undefined, s2) \<and> Port_destroy E s2 reason' = s2)
    \<and> adapterDestroyed (run E newPort evs) \<le> 1"
proof -
  let ?s = "run E newPort before"
  have c: "consistent ?s" by (rule reachable_consistent)
  have "step E ?s d = snd (destroy E ?s reason)"
    using assms c by (auto simp: Port_destroy_eq)
  then have "\<not> public (step E ?s d)" using c by (simp add: destroy_closes)
  then have "\<not> public (run E (step E ?s d) after)" by (rule run_closed)
  then have 1: "destroy E (run E (step E ?s d) after) reason' = (Inr Undefined, run E (step E ?s d) after)"
    by (rule destroy_closed)
  then have 2: "Port_destroy E (run E (step E ?s d) after) reason' = run E (step E ?s d) after"
    by (simp add: Port_destroy_def)
  have "consistent (run E newPort evs)" by (rule reachable_consistent)
  then have 3: "adapterDestroyed (run E newPort evs) \<le> 1"
    by (simp add: consistent_def lifecycle_def split: if_splits)
  show ?thesis using 1 2 3 by (simp add: Let_def)
qed

theorem later_destroy_is_noop_witness:
  "(CallDestroy Undefined = CallDestroy Undefined \<or> CallDestroy Undefined = AdapterEnd Undefined)
   \<and> run quietEnv (step quietEnv (run quietEnv newPort []) (CallDestroy Undefined)) [] = destroyedPort
   \<and> destroy quietEnv destroyedPort (Str ''again'') = (Inr Undefined, destroyedPort)
   \<and> Port_destroy quietEnv destroyedPort (Str ''again'') = destroyedPort
   \<and> adapterDestroyed (run quietEnv newPort [CallDestroy Undefined, AdapterEnd Undefined]) \<le> 1"
proof -
  have d: "CallDestroy Undefined = CallDestroy Undefined \<or> CallDestroy Undefined = AdapterEnd Undefined"
    by simp
  have r: "run quietEnv (step quietEnv (run quietEnv newPort []) (CallDestroy Undefined)) [] = destroyedPort"
    by (simp add: run_def Port_destroy_def destroy_newPort)
  show ?thesis
    using d r later_destroy_is_noop [OF d, of quietEnv "[]" "[]" "Str ''again''"
        "[CallDestroy Undefined, AdapterEnd Undefined]"]
    by (simp add: Let_def)
qed

end
